theory Spec2Isabelle
  imports Main "HOL-Library.Word" "HOL-Library.Multiset" "HOL-Library.Code_Target_Numeral"
begin

unbundle bit_operations_syntax

section \<open>Data model of the static R-tree\<close>

text \<open>
  Fixed-point coordinates (\<open>FixedLongitude\<close>, \<open>FixedLatitude\<close>) are 32-bit integers holding
  degrees times \<open>COORDINATE_PRECISION\<close>. They are modelled as \<open>int\<close>: the operations below
  only compare them and take differences, and squared distances are held as \<open>nat\<close> (the
  source holds them in 64 bits, which planet-scale fixed-point differences do not exceed).
\<close>

record Coordinate =
  lon :: int
  lat :: int

text \<open>
  \<open>EdgeDataT\<close> is a template parameter. The index reads its endpoint indices \<open>u\<close>, \<open>v\<close>
  into the coordinate table and the \<open>enabled\<close> bits of its two segment ids.
\<close>

record SegmentID =
  segment_id :: nat
  enabled :: bool

record EdgeData =
  u :: nat
  v :: nat
  forward_segment_id :: SegmentID
  reverse_segment_id :: SegmentID

record Rectangle =
  min_lon :: int
  max_lon :: int
  min_lat :: int
  max_lat :: int

text \<open>\<open>TreeIndex\<close>: a 31-bit index and the \<open>is_leaf\<close> bit.\<close>

record TreeIndex =
  index :: nat
  is_leaf :: bool

definition TreeIndex_default :: TreeIndex where
  "TreeIndex_default = \<lparr>index = 0, is_leaf = False\<rparr>"

definition TreeIndex_make :: "nat \<Rightarrow> bool \<Rightarrow> TreeIndex" where
  "TreeIndex_make i b = \<lparr>index = i mod 2 ^ 31, is_leaf = b\<rparr>"

record TreeNode =
  child_count :: "32 word"
  minimum_bounding_rectangle :: Rectangle
  children :: "TreeIndex list"

record LeafNode =
  object_count :: "32 word"
  leaf_minimum_bounding_rectangle :: Rectangle
  objects :: "EdgeData list"

record CandidateSegment =
  candidate_coordinate :: Coordinate
  data :: EdgeData

record QueryCandidate =
  squared_min_dist :: nat
  tree_index :: TreeIndex
  segment_index :: "32 word"
  fixed_projected_coordinate :: Coordinate

text \<open>The members of \<open>StaticRTree\<close> that the queries read.\<close>

record StaticRTree =
  m_search_tree :: "TreeNode list"
  m_coordinate_list :: "Coordinate list"
  m_leaves :: "LeafNode list"

datatype error =
  OutOfBounds | OutOfFuel | MappingFailed | AssertionFailed | DivisionByZero | BadGrainsize

text \<open>
  \<open>operator[]\<close> of a vector, a view or an array does not check its index; reading past the end
  is undefined behaviour in the source and the error \<open>OutOfBounds\<close> in the model.
\<close>

definition at :: "'a list \<Rightarrow> nat \<Rightarrow> error + 'a" where
  "at xs i = (if i < length xs then Inr (xs ! i) else Inl OutOfBounds)"

section \<open>Rectangle, projection and distance\<close>

text \<open>
  Modelled from the spec: \<open>util/rectangle.hpp\<close> (\<open>RectangleInt2D\<close>) is not among the sources.
  An empty rectangle holds sentinel extrema so that any extension makes it valid; the
  operations are extend by a point, extend by a rectangle (union), intersection test,
  containment, and the minimal squared distance to a point (0 if the point is inside, else
  the squared distance to the nearest edge or corner).
\<close>

definition Rectangle_empty :: Rectangle where
  "Rectangle_empty =
     \<lparr>min_lon = 2147483647, max_lon = - 2147483648,
      min_lat = 2147483647, max_lat = - 2147483648\<rparr>"

definition Extend :: "Rectangle \<Rightarrow> int \<Rightarrow> int \<Rightarrow> Rectangle" where
  "Extend r x y =
     \<lparr>min_lon = min (min_lon r) x, max_lon = max (max_lon r) x,
      min_lat = min (min_lat r) y, max_lat = max (max_lat r) y\<rparr>"

definition MergeBoundingBoxes :: "Rectangle \<Rightarrow> Rectangle \<Rightarrow> Rectangle" where
  "MergeBoundingBoxes r other =
     \<lparr>min_lon = min (min_lon r) (min_lon other), max_lon = max (max_lon r) (max_lon other),
      min_lat = min (min_lat r) (min_lat other), max_lat = max (max_lat r) (max_lat other)\<rparr>"

definition Intersects :: "Rectangle \<Rightarrow> Rectangle \<Rightarrow> bool" where
  "Intersects r other \<longleftrightarrow>
     \<not> (max_lon r < min_lon other \<or> min_lon r > max_lon other \<or>
        max_lat r < min_lat other \<or> min_lat r > max_lat other)"

definition Contains :: "Rectangle \<Rightarrow> Coordinate \<Rightarrow> bool" where
  "Contains r p \<longleftrightarrow>
     min_lon r \<le> lon p \<and> lon p \<le> max_lon r \<and> min_lat r \<le> lat p \<and> lat p \<le> max_lat r"

text \<open>
  Modelled from the spec: \<open>coordinate_calculation::squaredEuclideanDistance\<close> is not among
  the sources; it is the squared Euclidean distance in projected fixed-point units.
\<close>

definition squaredEuclideanDistance :: "Coordinate \<Rightarrow> Coordinate \<Rightarrow> nat" where
  "squaredEuclideanDistance a b =
     nat ((lon a - lon b) * (lon a - lon b) + (lat a - lat b) * (lat a - lat b))"

definition clamp :: "int \<Rightarrow> int \<Rightarrow> int \<Rightarrow> int" where
  "clamp lo hi x = (if x < lo then lo else if hi < x then hi else x)"

definition GetMinSquaredDist :: "Rectangle \<Rightarrow> Coordinate \<Rightarrow> nat" where
  "GetMinSquaredDist r location =
     (if Contains r location then 0
      else squaredEuclideanDistance location
             \<lparr>lon = clamp (min_lon r) (max_lon r) (lon location),
              lat = clamp (min_lat r) (max_lat r) (lat location)\<rparr>)"

text \<open>
  Modelled from the spec: \<open>web_mercator::fromWGS84\<close> is not among the sources. A projected
  coordinate is \<open>(x = lon, y = latToY(lat))\<close>. The floating-point \<open>latToY\<close>, rounded back to
  fixed point, is the parameter \<open>latToY\<close> of the model.
\<close>

definition fromWGS84 :: "(int \<Rightarrow> int) \<Rightarrow> Coordinate \<Rightarrow> Coordinate" where
  "fromWGS84 latToY c = \<lparr>lon = lon c, lat = latToY (lat c)\<rparr>"

section \<open>The priority queue of \<open>Nearest\<close>\<close>

text \<open>The two constructors of \<open>QueryCandidate\<close>; the first stores the sentinel \<open>2^32 - 1\<close>.\<close>

definition Coordinate_default :: Coordinate where
  "Coordinate_default = \<lparr>lon = 0, lat = 0\<rparr>"

definition QueryCandidate_node :: "nat \<Rightarrow> TreeIndex \<Rightarrow> QueryCandidate" where
  "QueryCandidate_node d ti =
     \<lparr>squared_min_dist = d, tree_index = ti, segment_index = - 1,
      fixed_projected_coordinate = Coordinate_default\<rparr>"

definition QueryCandidate_segment ::
  "nat \<Rightarrow> TreeIndex \<Rightarrow> 32 word \<Rightarrow> Coordinate \<Rightarrow> QueryCandidate" where
  "QueryCandidate_segment d ti i c =
     \<lparr>squared_min_dist = d, tree_index = ti, segment_index = i,
      fixed_projected_coordinate = c\<rparr>"

definition is_segment :: "QueryCandidate \<Rightarrow> bool" where
  "is_segment c \<longleftrightarrow> segment_index c \<noteq> (4294967295 :: 32 word)"

text \<open>
  \<open>std::priority_queue\<close> with the reversed \<open>operator<\<close>: \<open>top\<close> is an entry of least
  \<open>squared_min_dist\<close>. Which of several least entries comes first is left open by the
  standard; the model takes the one pushed first.
\<close>

definition top :: "QueryCandidate list \<Rightarrow> QueryCandidate" where
  "top q = arg_min_list squared_min_dist q"

definition pop :: "QueryCandidate list \<Rightarrow> QueryCandidate list" where
  "pop q = remove1 (top q) q"

definition push :: "QueryCandidate list \<Rightarrow> QueryCandidate \<Rightarrow> QueryCandidate list" where
  "push q c = q @ [c]"

section \<open>Nearest-neighbour search\<close>

text \<open>
  \<open>ExploreLeafNode\<close> projects the query on every segment of a leaf. The floating-point
  chain \<open>fromWGS84\<close>, \<open>projectPointOnSegment\<close> and the conversion of the foot point back
  to fixed point is the parameter \<open>nearest\<close>: from the coordinates of the two endpoints and
  the query coordinate to the fixed-point projected foot point.
\<close>

fun ExploreLeafNode_loop ::
  "(Coordinate \<Rightarrow> Coordinate \<Rightarrow> Coordinate \<Rightarrow> Coordinate) \<Rightarrow> Coordinate list \<Rightarrow>
   LeafNode \<Rightarrow> TreeIndex \<Rightarrow> Coordinate \<Rightarrow> Coordinate \<Rightarrow> nat list \<Rightarrow>
   QueryCandidate list \<Rightarrow> error + QueryCandidate list" where
  "ExploreLeafNode_loop nearest coords leaf leaf_id pfixed input [] q = Inr q"
| "ExploreLeafNode_loop nearest coords leaf leaf_id pfixed input (i # is) q =
     (case at (objects leaf) i of Inl e \<Rightarrow> Inl e | Inr current_edge \<Rightarrow>
      case at coords (u current_edge) of Inl e \<Rightarrow> Inl e | Inr cu \<Rightarrow>
      case at coords (v current_edge) of Inl e \<Rightarrow> Inl e | Inr cv \<Rightarrow>
        let projected_nearest = nearest cu cv input;
            squared_distance = squaredEuclideanDistance pfixed projected_nearest
        in ExploreLeafNode_loop nearest coords leaf leaf_id pfixed input is
             (push q (QueryCandidate_segment squared_distance leaf_id (of_nat i)
                        projected_nearest)))"

definition ExploreLeafNode ::
  "(Coordinate \<Rightarrow> Coordinate \<Rightarrow> Coordinate \<Rightarrow> Coordinate) \<Rightarrow> ('a StaticRTree_scheme) \<Rightarrow>
   TreeIndex \<Rightarrow> Coordinate \<Rightarrow> Coordinate \<Rightarrow> QueryCandidate list \<Rightarrow>
   error + QueryCandidate list" where
  "ExploreLeafNode nearest t leaf_id pfixed input q =
     (case at (m_leaves t) (index leaf_id) of Inl e \<Rightarrow> Inl e | Inr current_leaf_node \<Rightarrow>
        ExploreLeafNode_loop nearest (m_coordinate_list t) current_leaf_node leaf_id pfixed
          input [0 ..< unat (object_count current_leaf_node)] q)"

definition child_rectangle :: "('a StaticRTree_scheme) \<Rightarrow> TreeIndex \<Rightarrow> error + Rectangle" where
  "child_rectangle t child_id =
     (if is_leaf child_id
      then map_sum id leaf_minimum_bounding_rectangle (at (m_leaves t) (index child_id))
      else map_sum id minimum_bounding_rectangle (at (m_search_tree t) (index child_id)))"

fun ExploreTreeNode_loop ::
  "('a StaticRTree_scheme) \<Rightarrow> TreeNode \<Rightarrow> Coordinate \<Rightarrow> nat list \<Rightarrow>
   QueryCandidate list \<Rightarrow> error + QueryCandidate list" where
  "ExploreTreeNode_loop t parent pfixed [] q = Inr q"
| "ExploreTreeNode_loop t parent pfixed (i # is) q =
     (case at (children parent) i of Inl e \<Rightarrow> Inl e | Inr child_id \<Rightarrow>
      case child_rectangle t child_id of Inl e \<Rightarrow> Inl e | Inr rect \<Rightarrow>
        let squared_lower_bound_to_element = GetMinSquaredDist rect pfixed
        in ExploreTreeNode_loop t parent pfixed is
             (push q (QueryCandidate_node squared_lower_bound_to_element child_id)))"

definition ExploreTreeNode ::
  "('a StaticRTree_scheme) \<Rightarrow> TreeIndex \<Rightarrow> Coordinate \<Rightarrow> QueryCandidate list \<Rightarrow>
   error + QueryCandidate list" where
  "ExploreTreeNode t parent_id pfixed q =
     (case at (m_search_tree t) (index parent_id) of Inl e \<Rightarrow> Inl e | Inr parent \<Rightarrow>
        ExploreTreeNode_loop t parent pfixed [0 ..< unat (child_count parent)] q)"

text \<open>
  The state of one \<open>Nearest\<close> call: the members of the tree, the priority queue and the
  result vector. The loop body is \<open>Nearest_loop\<close>; fuel bounds the number of pops, and a
  call that needs more returns \<open>OutOfFuel\<close>.
\<close>

record Nearest_state = StaticRTree +
  traversal_queue :: "QueryCandidate list"
  results :: "EdgeData list"

definition mask_edge :: "EdgeData \<Rightarrow> bool \<times> bool \<Rightarrow> EdgeData" where
  "mask_edge edge_data use_segment =
     edge_data
       \<lparr>forward_segment_id := (forward_segment_id edge_data)
          \<lparr>enabled := enabled (forward_segment_id edge_data) \<and> fst use_segment\<rparr>,
        reverse_segment_id := (reverse_segment_id edge_data)
          \<lparr>enabled := enabled (reverse_segment_id edge_data) \<and> snd use_segment\<rparr>\<rparr>"

definition segment_edge :: "('a StaticRTree_scheme) \<Rightarrow> QueryCandidate \<Rightarrow> error + EdgeData" where
  "segment_edge t c =
     (case at (m_leaves t) (index (tree_index c)) of Inl e \<Rightarrow> Inl e | Inr leaf \<Rightarrow>
        at (objects leaf) (unat (segment_index c)))"

fun Nearest_loop ::
  "(Coordinate \<Rightarrow> Coordinate \<Rightarrow> Coordinate \<Rightarrow> Coordinate) \<Rightarrow> Coordinate \<Rightarrow> Coordinate \<Rightarrow>
   (CandidateSegment \<Rightarrow> bool \<times> bool) \<Rightarrow> (nat \<Rightarrow> CandidateSegment \<Rightarrow> bool) \<Rightarrow>
   nat \<Rightarrow> Nearest_state \<Rightarrow> error + Nearest_state" where
  "Nearest_loop nearest pfixed input filterT terminate 0 s =
     (if traversal_queue s = [] then Inr s else Inl OutOfFuel)"
| "Nearest_loop nearest pfixed input filterT terminate (Suc fuel) s =
     (if traversal_queue s = [] then Inr s
      else
        let current_query_node = top (traversal_queue s);
            s1 = s\<lparr>traversal_queue := pop (traversal_queue s)\<rparr>;
            current_tree_index = tree_index current_query_node
        in if \<not> is_segment current_query_node
           then
             (case (if is_leaf current_tree_index
                    then ExploreLeafNode nearest s current_tree_index pfixed input
                           (traversal_queue s1)
                    else ExploreTreeNode s current_tree_index pfixed (traversal_queue s1)) of
                Inl e \<Rightarrow> Inl e
              | Inr q \<Rightarrow>
                  Nearest_loop nearest pfixed input filterT terminate fuel
                    (s1\<lparr>traversal_queue := q\<rparr>))
           else
             (case segment_edge s current_query_node of
                Inl e \<Rightarrow> Inl e
              | Inr edge_data \<Rightarrow>
                  let current_candidate =
                        \<lparr>candidate_coordinate = fixed_projected_coordinate current_query_node,
                         data = edge_data\<rparr>
                  in if terminate (length (results s1)) current_candidate then Inr s1
                     else
                       let use_segment = filterT current_candidate
                       in if \<not> fst use_segment \<and> \<not> snd use_segment
                          then Nearest_loop nearest pfixed input filterT terminate fuel s1
                          else Nearest_loop nearest pfixed input filterT terminate fuel
                                 (s1\<lparr>results := results s1 @ [mask_edge edge_data use_segment]\<rparr>)))"

definition Nearest_init :: "StaticRTree \<Rightarrow> Nearest_state" where
  "Nearest_init t =
     \<lparr>m_search_tree = m_search_tree t, m_coordinate_list = m_coordinate_list t,
      m_leaves = m_leaves t,
      traversal_queue = [QueryCandidate_node 0 TreeIndex_default], results = []\<rparr>"

definition Nearest ::
  "(int \<Rightarrow> int) \<Rightarrow> (Coordinate \<Rightarrow> Coordinate \<Rightarrow> Coordinate \<Rightarrow> Coordinate) \<Rightarrow> nat \<Rightarrow>
   StaticRTree \<Rightarrow> Coordinate \<Rightarrow> (CandidateSegment \<Rightarrow> bool \<times> bool) \<Rightarrow>
   (nat \<Rightarrow> CandidateSegment \<Rightarrow> bool) \<Rightarrow> error + EdgeData list" where
  "Nearest latToY nearest fuel t input_coordinate filterT terminate =
     map_sum id results
       (Nearest_loop nearest (fromWGS84 latToY input_coordinate) input_coordinate
          filterT terminate fuel (Nearest_init t))"

text \<open>The convenience overload \<open>Nearest(input_coordinate, max_results)\<close>.\<close>

definition Nearest_max ::
  "(int \<Rightarrow> int) \<Rightarrow> (Coordinate \<Rightarrow> Coordinate \<Rightarrow> Coordinate \<Rightarrow> Coordinate) \<Rightarrow> nat \<Rightarrow>
   StaticRTree \<Rightarrow> Coordinate \<Rightarrow> nat \<Rightarrow> error + EdgeData list" where
  "Nearest_max latToY nearest fuel t input_coordinate max_results =
     Nearest latToY nearest fuel t input_coordinate (\<lambda>_. (True, True))
       (\<lambda>num_results _. num_results \<ge> max_results)"

section \<open>Window search\<close>

record SearchInBox_state = StaticRTree +
  box_queue :: "TreeIndex list"
  box_results :: "EdgeData list"

definition edge_bbox :: "Coordinate list \<Rightarrow> EdgeData \<Rightarrow> Rectangle" where
  "edge_bbox coords current_edge =
     \<lparr>min_lon = min (lon (coords ! u current_edge)) (lon (coords ! v current_edge)),
      max_lon = max (lon (coords ! u current_edge)) (lon (coords ! v current_edge)),
      min_lat = min (lat (coords ! u current_edge)) (lat (coords ! v current_edge)),
      max_lat = max (lat (coords ! u current_edge)) (lat (coords ! v current_edge))\<rparr>"

fun SearchInBox_leaf ::
  "Coordinate list \<Rightarrow> LeafNode \<Rightarrow> Rectangle \<Rightarrow> nat list \<Rightarrow> EdgeData list \<Rightarrow>
   error + EdgeData list" where
  "SearchInBox_leaf coords leaf search_rectangle [] rs = Inr rs"
| "SearchInBox_leaf coords leaf search_rectangle (i # is) rs =
     (case at (objects leaf) i of Inl e \<Rightarrow> Inl e | Inr current_edge \<Rightarrow>
        if u current_edge < length coords \<and> v current_edge < length coords
        then SearchInBox_leaf coords leaf search_rectangle is
               (if Intersects (edge_bbox coords current_edge) search_rectangle
                then rs @ [current_edge] else rs)
        else Inl OutOfBounds)"

fun SearchInBox_node ::
  "('a StaticRTree_scheme) \<Rightarrow> TreeNode \<Rightarrow> Rectangle \<Rightarrow> nat list \<Rightarrow> TreeIndex list \<Rightarrow>
   error + TreeIndex list" where
  "SearchInBox_node t node projected_rectangle [] q = Inr q"
| "SearchInBox_node t node projected_rectangle (i # is) q =
     (case at (children node) i of Inl e \<Rightarrow> Inl e | Inr child_id \<Rightarrow>
        (case child_rectangle t child_id of Inl e \<Rightarrow> Inl e | Inr rect \<Rightarrow>
           SearchInBox_node t node projected_rectangle is
             (if Intersects rect projected_rectangle then q @ [child_id] else q)))"

fun SearchInBox_loop ::
  "Rectangle \<Rightarrow> Rectangle \<Rightarrow> nat \<Rightarrow> SearchInBox_state \<Rightarrow> error + SearchInBox_state" where
  "SearchInBox_loop search_rectangle projected_rectangle 0 s =
     (if box_queue s = [] then Inr s else Inl OutOfFuel)"
| "SearchInBox_loop search_rectangle projected_rectangle (Suc fuel) s =
     (case box_queue s of
        [] \<Rightarrow> Inr s
      | current_tree_index # rest \<Rightarrow>
          if is_leaf current_tree_index
          then
            (case at (m_leaves s) (index current_tree_index) of
               Inl e \<Rightarrow> Inl e
             | Inr current_leaf_node \<Rightarrow>
                 (case SearchInBox_leaf (m_coordinate_list s) current_leaf_node
                         search_rectangle [0 ..< unat (object_count current_leaf_node)]
                         (box_results s) of
                    Inl e \<Rightarrow> Inl e
                  | Inr rs \<Rightarrow>
                      SearchInBox_loop search_rectangle projected_rectangle fuel
                        (s\<lparr>box_queue := rest, box_results := rs\<rparr>)))
          else
            (case at (m_search_tree s) (index current_tree_index) of
               Inl e \<Rightarrow> Inl e
             | Inr current_tree_node \<Rightarrow>
                 (case SearchInBox_node s current_tree_node projected_rectangle
                         [0 ..< unat (child_count current_tree_node)] rest of
                    Inl e \<Rightarrow> Inl e
                  | Inr q \<Rightarrow>
                      SearchInBox_loop search_rectangle projected_rectangle fuel
                        (s\<lparr>box_queue := q\<rparr>))))"

definition SearchInBox_init :: "StaticRTree \<Rightarrow> SearchInBox_state" where
  "SearchInBox_init t =
     \<lparr>m_search_tree = m_search_tree t, m_coordinate_list = m_coordinate_list t,
      m_leaves = m_leaves t, box_queue = [TreeIndex_default], box_results = []\<rparr>"

definition project_rectangle :: "(int \<Rightarrow> int) \<Rightarrow> Rectangle \<Rightarrow> Rectangle" where
  "project_rectangle latToY search_rectangle =
     \<lparr>min_lon = min_lon search_rectangle, max_lon = max_lon search_rectangle,
      min_lat = latToY (min_lat search_rectangle),
      max_lat = latToY (max_lat search_rectangle)\<rparr>"

definition SearchInBox ::
  "(int \<Rightarrow> int) \<Rightarrow> nat \<Rightarrow> StaticRTree \<Rightarrow> Rectangle \<Rightarrow> error + EdgeData list" where
  "SearchInBox latToY fuel t search_rectangle =
     map_sum id box_results
       (SearchInBox_loop search_rectangle (project_rectangle latToY search_rectangle) fuel
          (SearchInBox_init t))"

section \<open>Mapping the leaf file\<close>

text \<open>
  \<open>LEAF_NODE_SIZE\<close> is computed in \<open>std::size_t\<close> from the page size, the size of the
  \<open>object_count\<close> field (4), the size of a rectangle (16) and the size of an edge, and
  stored in a \<open>std::uint32_t\<close>: the subtraction wraps at \<open>2^64\<close> and the conversion keeps
  the low 32 bits.
\<close>

definition LEAF_NODE_SIZE :: "32 word \<Rightarrow> nat \<Rightarrow> nat" where
  "LEAF_NODE_SIZE LEAF_PAGE_SIZE sizeof_EdgeDataT =
     (((unat LEAF_PAGE_SIZE + 2 ^ 64 - 4 - 16) mod 2 ^ 64) div sizeof_EdgeDataT) mod 2 ^ 32"

text \<open>
  The three \<open>static_assert\<close>s of the class: the page holds the count and one edge, the page
  size is a power of two, and a \<open>LeafNode\<close> is exactly one page. \<open>sizeof_LeafNode\<close> is the
  size the compiler gives the structure.
\<close>

definition static_asserts :: "32 word \<Rightarrow> nat \<Rightarrow> nat \<Rightarrow> bool" where
  "static_asserts LEAF_PAGE_SIZE sizeof_EdgeDataT sizeof_LeafNode \<longleftrightarrow>
     4 + sizeof_EdgeDataT \<le> unat LEAF_PAGE_SIZE \<and>
     (LEAF_PAGE_SIZE - 1) AND LEAF_PAGE_SIZE = 0 \<and>
     sizeof_LeafNode = unat LEAF_PAGE_SIZE"

text \<open>
  What the language fixes about \<open>sizeof(LeafNode)\<close> and \<open>sizeof(EdgeDataT)\<close>: the size of an
  object is positive, and a structure is at least as large as its members together, here
  the count, the rectangle and the array of \<open>LEAF_NODE_SIZE\<close> edges.
\<close>

definition LeafNode_layout :: "32 word \<Rightarrow> nat \<Rightarrow> nat \<Rightarrow> bool" where
  "LeafNode_layout LEAF_PAGE_SIZE sizeof_EdgeDataT sizeof_LeafNode \<longleftrightarrow>
     0 < sizeof_EdgeDataT \<and>
     4 + 16 + LEAF_NODE_SIZE LEAF_PAGE_SIZE sizeof_EdgeDataT * sizeof_EdgeDataT
       \<le> sizeof_LeafNode"

text \<open>
  The member \<open>objects\<close> of a \<open>LeafNode\<close> is a \<open>std::array\<close> of \<open>LEAF_NODE_SIZE\<close> edges; the
  leaves of an index of this instantiation all have an object array of that length.
\<close>

definition leaves_typed :: "32 word \<Rightarrow> nat \<Rightarrow> ('a StaticRTree_scheme) \<Rightarrow> bool" where
  "leaves_typed LEAF_PAGE_SIZE sizeof_EdgeDataT t \<longleftrightarrow>
     list_all (\<lambda>leaf. length (objects leaf) = LEAF_NODE_SIZE LEAF_PAGE_SIZE sizeof_EdgeDataT)
       (m_leaves t)"

text \<open>
  \<open>MapLeafNodesFile\<close>: \<open>region\<close> is what \<open>m_leaves_region.open\<close> mapped, the address
  \<open>data_ptr\<close> of the mapping and its bytes (\<open>None\<close> when it throws). The number of leaves is
  the quotient of the file size by \<open>sizeof(LeafNode)\<close>; the \<open>BOOST_ASSERT\<close> requires the
  address to be a multiple of \<open>alignof(LeafNode)\<close>; the view \<open>m_leaves\<close> is then the first
  \<open>num_leaves\<close> pages of the mapping.
\<close>

definition MapLeafNodesFile ::
  "nat \<Rightarrow> nat \<Rightarrow> (nat \<times> 8 word list) option \<Rightarrow> error + 8 word list list" where
  "MapLeafNodesFile sizeof_LeafNode alignof_LeafNode region =
     (case region of
        None \<Rightarrow> Inl MappingFailed
      | Some (data_ptr, bytes) \<Rightarrow>
          let num_leaves = length bytes div sizeof_LeafNode
          in if data_ptr mod alignof_LeafNode \<noteq> 0 then Inl AssertionFailed
             else Inr (map (\<lambda>i. take sizeof_LeafNode (drop (i * sizeof_LeafNode) bytes))
                         [0 ..< num_leaves]))"

section \<open>Auxiliary notions for the proofs\<close>

text \<open>The entry that \<open>ExploreLeafNode\<close> pushes for segment \<open>i\<close> of a leaf.\<close>

definition leaf_entry ::
  "(Coordinate \<Rightarrow> Coordinate \<Rightarrow> Coordinate \<Rightarrow> Coordinate) \<Rightarrow> Coordinate list \<Rightarrow>
   LeafNode \<Rightarrow> TreeIndex \<Rightarrow> Coordinate \<Rightarrow> Coordinate \<Rightarrow> nat \<Rightarrow> QueryCandidate" where
  "leaf_entry nearest coords leaf leaf_id pfixed input i =
     (let e = objects leaf ! i; p = nearest (coords ! u e) (coords ! v e) input
      in QueryCandidate_segment (squaredEuclideanDistance pfixed p) leaf_id (of_nat i) p)"

definition edge_in_range :: "Coordinate list \<Rightarrow> LeafNode \<Rightarrow> nat \<Rightarrow> bool" where
  "edge_in_range coords leaf i \<longleftrightarrow>
     i < length (objects leaf) \<and> u (objects leaf ! i) < length coords \<and>
     v (objects leaf ! i) < length coords"

text \<open>The entry that \<open>ExploreTreeNode\<close> pushes for child \<open>i\<close> of a node.\<close>

definition rectangle_of :: "('a StaticRTree_scheme) \<Rightarrow> TreeIndex \<Rightarrow> Rectangle" where
  "rectangle_of t child_id =
     (if is_leaf child_id then leaf_minimum_bounding_rectangle (m_leaves t ! index child_id)
      else minimum_bounding_rectangle (m_search_tree t ! index child_id))"

definition node_entry ::
  "('a StaticRTree_scheme) \<Rightarrow> TreeNode \<Rightarrow> Coordinate \<Rightarrow> nat \<Rightarrow> QueryCandidate" where
  "node_entry t parent pfixed i =
     QueryCandidate_node (GetMinSquaredDist (rectangle_of t (children parent ! i)) pfixed)
       (children parent ! i)"

definition index_in_range :: "('a StaticRTree_scheme) \<Rightarrow> TreeIndex \<Rightarrow> bool" where
  "index_in_range t ti \<longleftrightarrow>
     (if is_leaf ti then index ti < length (m_leaves t)
      else index ti < length (m_search_tree t))"

definition child_in_range :: "('a StaticRTree_scheme) \<Rightarrow> TreeNode \<Rightarrow> nat \<Rightarrow> bool" where
  "child_in_range t parent i \<longleftrightarrow>
     i < length (children parent) \<and> index_in_range t (children parent ! i)"

definition edge_dist ::
  "(int \<Rightarrow> int) \<Rightarrow> (Coordinate \<Rightarrow> Coordinate \<Rightarrow> Coordinate \<Rightarrow> Coordinate) \<Rightarrow>
   Coordinate list \<Rightarrow> Coordinate \<Rightarrow> EdgeData \<Rightarrow> nat" where
  "edge_dist latToY nearest coords input e =
     squaredEuclideanDistance (fromWGS84 latToY input)
       (nearest (coords ! u e) (coords ! v e) input)"

definition leaf_edges :: "LeafNode \<Rightarrow> EdgeData list" where
  "leaf_edges leaf = take (unat (object_count leaf)) (objects leaf)"

definition stored_edges :: "('a StaticRTree_scheme) \<Rightarrow> EdgeData list" where
  "stored_edges t = concat (map leaf_edges (m_leaves t))"

definition rect_subset :: "Rectangle \<Rightarrow> Rectangle \<Rightarrow> bool" where
  "rect_subset a b \<longleftrightarrow>
     min_lon b \<le> min_lon a \<and> max_lon a \<le> max_lon b \<and>
     min_lat b \<le> min_lat a \<and> max_lat a \<le> max_lat b"

definition leaf_covers :: "(int \<Rightarrow> int) \<Rightarrow> Coordinate list \<Rightarrow> LeafNode \<Rightarrow> bool" where
  "leaf_covers latToY coords leaf \<longleftrightarrow>
     list_all (\<lambda>e.
         Contains (leaf_minimum_bounding_rectangle leaf) (fromWGS84 latToY (coords ! u e)) \<and>
         Contains (leaf_minimum_bounding_rectangle leaf) (fromWGS84 latToY (coords ! v e)))
       (leaf_edges leaf)"

definition node_covers :: "('a StaticRTree_scheme) \<Rightarrow> TreeNode \<Rightarrow> bool" where
  "node_covers t n \<longleftrightarrow>
     list_all (\<lambda>child_id.
         index_in_range t child_id \<longrightarrow>
         rect_subset (rectangle_of t child_id) (minimum_bounding_rectangle n))
       (take (unat (child_count n)) (children n))"

definition covering :: "(int \<Rightarrow> int) \<Rightarrow> ('a StaticRTree_scheme) \<Rightarrow> bool" where
  "covering latToY t \<longleftrightarrow>
     list_all (leaf_covers latToY (m_coordinate_list t)) (m_leaves t) \<and>
     list_all (node_covers t) (m_search_tree t)"

text \<open>
  What the spec says of \<open>projectPointOnSegment\<close>: the foot point is clamped to the
  segment, so it lies in the bounding box of the two projected endpoints. The predicate
  says so for the stored edges of a tree and one query coordinate.
\<close>

definition segment_box :: "(int \<Rightarrow> int) \<Rightarrow> Coordinate \<Rightarrow> Coordinate \<Rightarrow> Rectangle" where
  "segment_box latToY cu cv =
     \<lparr>min_lon = min (lon (fromWGS84 latToY cu)) (lon (fromWGS84 latToY cv)),
      max_lon = max (lon (fromWGS84 latToY cu)) (lon (fromWGS84 latToY cv)),
      min_lat = min (lat (fromWGS84 latToY cu)) (lat (fromWGS84 latToY cv)),
      max_lat = max (lat (fromWGS84 latToY cu)) (lat (fromWGS84 latToY cv))\<rparr>"

definition foot_on_segment ::
  "(int \<Rightarrow> int) \<Rightarrow> (Coordinate \<Rightarrow> Coordinate \<Rightarrow> Coordinate \<Rightarrow> Coordinate) \<Rightarrow>
   Coordinate list \<Rightarrow> Coordinate \<Rightarrow> EdgeData \<Rightarrow> bool" where
  "foot_on_segment latToY nearest coords input e \<longleftrightarrow>
     Contains (segment_box latToY (coords ! u e) (coords ! v e))
       (nearest (coords ! u e) (coords ! v e) input)"

definition feet_on_segments ::
  "(int \<Rightarrow> int) \<Rightarrow> (Coordinate \<Rightarrow> Coordinate \<Rightarrow> Coordinate \<Rightarrow> Coordinate) \<Rightarrow>
   ('a StaticRTree_scheme) \<Rightarrow> Coordinate \<Rightarrow> bool" where
  "feet_on_segments latToY nearest t input \<longleftrightarrow>
     list_all (foot_on_segment latToY nearest (m_coordinate_list t) input) (stored_edges t)"

definition valid_rect :: "Rectangle \<Rightarrow> bool" where
  "valid_rect r \<longleftrightarrow> min_lon r \<le> max_lon r \<and> min_lat r \<le> max_lat r"

definition entry_ok :: "('a StaticRTree_scheme) \<Rightarrow> QueryCandidate \<Rightarrow> bool" where
  "entry_ok t c \<longleftrightarrow>
     (is_segment c \<longrightarrow>
        index (tree_index c) < length (m_leaves t) \<and>
        unat (segment_index c) < unat (object_count (m_leaves t ! index (tree_index c))) \<and>
        edge_in_range (m_coordinate_list t) (m_leaves t ! index (tree_index c))
          (unat (segment_index c)))"

definition live :: "('a StaticRTree_scheme) \<Rightarrow> QueryCandidate \<Rightarrow> bool" where
  "live t c \<longleftrightarrow>
     is_segment c \<or>
     (index_in_range t (tree_index c) \<and> valid_rect (rectangle_of t (tree_index c)))"

definition key_sound ::
  "(int \<Rightarrow> int) \<Rightarrow> (Coordinate \<Rightarrow> Coordinate \<Rightarrow> Coordinate \<Rightarrow> Coordinate) \<Rightarrow>
   ('a StaticRTree_scheme) \<Rightarrow> Coordinate \<Rightarrow> QueryCandidate \<Rightarrow> bool" where
  "key_sound latToY nearest t input c \<longleftrightarrow>
     (if is_segment c
      then squared_min_dist c =
             edge_dist latToY nearest (m_coordinate_list t) input
               (objects (m_leaves t ! index (tree_index c)) ! unat (segment_index c))
      else live t c \<longrightarrow>
             squared_min_dist c
               \<le> GetMinSquaredDist (rectangle_of t (tree_index c)) (fromWGS84 latToY input))"

definition sorted_inv ::
  "(int \<Rightarrow> int) \<Rightarrow> (Coordinate \<Rightarrow> Coordinate \<Rightarrow> Coordinate \<Rightarrow> Coordinate) \<Rightarrow>
   Coordinate \<Rightarrow> Nearest_state \<Rightarrow> bool" where
  "sorted_inv latToY nearest input s \<longleftrightarrow>
     (\<forall>c\<in>set (traversal_queue s). entry_ok s c \<and> key_sound latToY nearest s input c) \<and>
     sorted (map (edge_dist latToY nearest (m_coordinate_list s) input) (results s)) \<and>
     (\<forall>r\<in>set (results s). \<forall>c\<in>set (traversal_queue s). live s c \<longrightarrow>
        edge_dist latToY nearest (m_coordinate_list s) input r \<le> squared_min_dist c)"

text \<open>
  Well-formedness of the subtree below a tree index, with a bound on its height: every
  index is in range, counts fit the arrays, and the endpoints of every stored edge are in
  the coordinate table. \<open>tree_weight\<close> bounds the number of queue entries the subtree
  gives rise to.
\<close>

definition leaf_ok :: "Coordinate list \<Rightarrow> LeafNode \<Rightarrow> bool" where
  "leaf_ok coords leaf \<longleftrightarrow>
     unat (object_count leaf) \<le> length (objects leaf) \<and>
     list_all (\<lambda>e. u e < length coords \<and> v e < length coords) (leaf_edges leaf)"

fun wf_at :: "('a StaticRTree_scheme) \<Rightarrow> nat \<Rightarrow> TreeIndex \<Rightarrow> bool" where
  "wf_at t 0 ti \<longleftrightarrow>
     is_leaf ti \<and> index ti < length (m_leaves t) \<and>
     leaf_ok (m_coordinate_list t) (m_leaves t ! index ti)"
| "wf_at t (Suc h) ti \<longleftrightarrow>
     (if is_leaf ti
      then index ti < length (m_leaves t) \<and>
           leaf_ok (m_coordinate_list t) (m_leaves t ! index ti)
      else index ti < length (m_search_tree t) \<and>
           unat (child_count (m_search_tree t ! index ti))
             \<le> length (children (m_search_tree t ! index ti)) \<and>
           list_all (wf_at t h)
             (take (unat (child_count (m_search_tree t ! index ti)))
                (children (m_search_tree t ! index ti))))"

fun tree_weight :: "('a StaticRTree_scheme) \<Rightarrow> nat \<Rightarrow> TreeIndex \<Rightarrow> nat" where
  "tree_weight t 0 ti =
     (if is_leaf ti then 1 + unat (object_count (m_leaves t ! index ti)) else 1)"
| "tree_weight t (Suc h) ti =
     (if is_leaf ti then 1 + unat (object_count (m_leaves t ! index ti))
      else 1 + sum_list (map (tree_weight t h)
             (take (unat (child_count (m_search_tree t ! index ti)))
                (children (m_search_tree t ! index ti)))))"

definition entry_weight :: "('a StaticRTree_scheme) \<Rightarrow> nat \<Rightarrow> QueryCandidate \<Rightarrow> nat" where
  "entry_weight t h c = (if is_segment c then 1 else tree_weight t h (tree_index c))"

definition entry_wf :: "('a StaticRTree_scheme) \<Rightarrow> nat \<Rightarrow> QueryCandidate \<Rightarrow> bool" where
  "entry_wf t h c \<longleftrightarrow> entry_ok t c \<and> (\<not> is_segment c \<longrightarrow> wf_at t h (tree_index c))"



text \<open>
  The edges stored below a tree index, and those of them that the window search reports:
  the edges of the leaves reached through children whose rectangle meets the projected
  window, filtered by the unprojected window.
\<close>

definition hits :: "Coordinate list \<Rightarrow> Rectangle \<Rightarrow> LeafNode \<Rightarrow> EdgeData list" where
  "hits coords search_rectangle leaf =
     filter (\<lambda>e. Intersects (edge_bbox coords e) search_rectangle) (leaf_edges leaf)"

definition node_children :: "('a StaticRTree_scheme) \<Rightarrow> TreeIndex \<Rightarrow> TreeIndex list" where
  "node_children t ti =
     take (unat (child_count (m_search_tree t ! index ti)))
       (children (m_search_tree t ! index ti))"

fun subtree_edges :: "('a StaticRTree_scheme) \<Rightarrow> nat \<Rightarrow> TreeIndex \<Rightarrow> EdgeData list" where
  "subtree_edges t 0 ti = (if is_leaf ti then leaf_edges (m_leaves t ! index ti) else [])"
| "subtree_edges t (Suc h) ti =
     (if is_leaf ti then leaf_edges (m_leaves t ! index ti)
      else concat (map (subtree_edges t h) (node_children t ti)))"

fun box_found ::
  "('a StaticRTree_scheme) \<Rightarrow> Rectangle \<Rightarrow> Rectangle \<Rightarrow> nat \<Rightarrow> TreeIndex \<Rightarrow> EdgeData list" where
  "box_found t R PR 0 ti =
     (if is_leaf ti then hits (m_coordinate_list t) R (m_leaves t ! index ti) else [])"
| "box_found t R PR (Suc h) ti =
     (if is_leaf ti then hits (m_coordinate_list t) R (m_leaves t ! index ti)
      else concat (map (box_found t R PR h)
             (filter (\<lambda>c. Intersects (rectangle_of t c) PR) (node_children t ti))))"

definition all_leaves_reached :: "('a StaticRTree_scheme) \<Rightarrow> nat \<Rightarrow> bool" where
  "all_leaves_reached t h \<longleftrightarrow>
     list_all (\<lambda>e. e \<in> set (subtree_edges t h TreeIndex_default)) (stored_edges t)"

section \<open>Bulk loading\<close>

text \<open>
  \<open>BRANCHING_FACTOR\<close> and \<open>LEAF_NODE_SIZE\<close> are the parameters \<open>B\<close> and \<open>L\<close>. A builder reads
  the coordinates of both endpoints of every input edge without a bounds check (for its
  centroid or for its bounding box); \<open>edges_in_range\<close> is the precondition under which no
  such read is out of bounds, and each builder reports \<open>OutOfBounds\<close> without it.
\<close>

definition edges_in_range :: "Coordinate list \<Rightarrow> EdgeData list \<Rightarrow> bool" where
  "edges_in_range coords xs \<longleftrightarrow> list_all (\<lambda>e. u e < length coords \<and> v e < length coords) xs"

definition EdgeData_default :: EdgeData where
  "EdgeData_default =
     \<lparr>u = 0, v = 0, forward_segment_id = \<lparr>segment_id = 0, enabled = False\<rparr>,
      reverse_segment_id = \<lparr>segment_id = 0, enabled = False\<rparr>\<rparr>"

definition LeafNode_default :: "nat \<Rightarrow> LeafNode" where
  "LeafNode_default L =
     \<lparr>object_count = 0, leaf_minimum_bounding_rectangle = Rectangle_empty,
      objects = replicate L EdgeData_default\<rparr>"

definition TreeNode_default :: "nat \<Rightarrow> TreeNode" where
  "TreeNode_default B =
     \<lparr>child_count = 0, minimum_bounding_rectangle = Rectangle_empty,
      children = replicate B TreeIndex_default\<rparr>"

text \<open>
  Modelled from the spec: \<open>coordinate_calculation::centroid\<close> is not among the sources; it
  is the midpoint of the two endpoints, in fixed point (the division truncates).
\<close>

definition half :: "int \<Rightarrow> int" where
  "half x = (if 0 \<le> x then x div 2 else - ((- x) div 2))"

definition centroid :: "Coordinate \<Rightarrow> Coordinate \<Rightarrow> Coordinate" where
  "centroid a b = \<lparr>lon = half (lon a + lon b), lat = half (lat a + lat b)\<rparr>"

definition edge_centroid :: "Coordinate list \<Rightarrow> EdgeData \<Rightarrow> Coordinate" where
  "edge_centroid coords e = centroid (coords ! u e) (coords ! v e)"

text \<open>
  The sorts of the builders (\<open>std::sort\<close>, \<open>tbb::parallel_sort\<close>) order by a key with a strict
  comparison and leave the order of equal keys open; the model sorts stably.
\<close>

definition sort_range :: "('a \<Rightarrow> int) \<Rightarrow> nat \<Rightarrow> nat \<Rightarrow> 'a list \<Rightarrow> 'a list" where
  "sort_range key l r xs = take l xs @ sort_key key (take (r - l) (drop l xs)) @ drop r xs"

subsection \<open>Leaves and the lowest level of nodes, as Hilbert and STR pack them\<close>

function pack_leaf ::
  "nat \<Rightarrow> (int \<Rightarrow> int) \<Rightarrow> Coordinate list \<Rightarrow> EdgeData list \<Rightarrow> nat \<Rightarrow> nat \<Rightarrow> LeafNode \<Rightarrow>
   LeafNode \<times> nat" where
  "pack_leaf L latToY coords xs object_index wrapped_element_index current_leaf =
     (if object_index < L \<and> wrapped_element_index < length xs
      then
        let object = xs ! wrapped_element_index;
            projected_u = fromWGS84 latToY (coords ! u object);
            projected_v = fromWGS84 latToY (coords ! v object);
            rectangle = leaf_minimum_bounding_rectangle current_leaf
        in pack_leaf L latToY coords xs (Suc object_index) (Suc wrapped_element_index)
             \<lparr>object_count = object_count current_leaf + 1,
              leaf_minimum_bounding_rectangle =
                \<lparr>min_lon = min (min_lon rectangle) (min (lon projected_u) (lon projected_v)),
                 max_lon = max (max_lon rectangle) (max (lon projected_u) (lon projected_v)),
                 min_lat = min (min_lat rectangle) (min (lat projected_u) (lat projected_v)),
                 max_lat = max (max_lat rectangle) (max (lat projected_u) (lat projected_v))\<rparr>,
              objects = (objects current_leaf)[object_index := object]\<rparr>
      else (current_leaf, wrapped_element_index))"
  by pat_completeness auto
termination
  by (relation "measure (\<lambda>(L, latToY, coords, xs, oi, wi, leaf). L - oi)") auto

function pack_node ::
  "nat \<Rightarrow> nat \<Rightarrow> (int \<Rightarrow> int) \<Rightarrow> Coordinate list \<Rightarrow> EdgeData list \<Rightarrow> nat \<Rightarrow> nat \<Rightarrow> nat \<Rightarrow>
   TreeNode \<Rightarrow> LeafNode list \<Rightarrow> TreeNode \<times> LeafNode list \<times> nat" where
  "pack_node B L latToY coords xs node_index leaf_index wrapped_element_index current_node
     leaf_node_file =
     (if leaf_index < B \<and> wrapped_element_index < length xs
      then
        let (current_leaf, next_element_index) =
              pack_leaf L latToY coords xs 0 wrapped_element_index (LeafNode_default L)
        in pack_node B L latToY coords xs node_index (Suc leaf_index) next_element_index
             \<lparr>child_count = child_count current_node + 1,
              minimum_bounding_rectangle =
                MergeBoundingBoxes (minimum_bounding_rectangle current_node)
                  (leaf_minimum_bounding_rectangle current_leaf),
              children = (children current_node)
                [leaf_index := TreeIndex_make ((node_index * B + leaf_index) mod 2 ^ 32) True]\<rparr>
             (leaf_node_file @ [current_leaf])
      else (current_node, leaf_node_file, wrapped_element_index))"
  by pat_completeness auto
termination
  by (relation "measure (\<lambda>(B, L, latToY, coords, xs, ni, li, wi, node, file). B - li)") auto

text \<open>
  The outer loop runs while elements remain. When a round consumes no element (a leaf or a
  node without capacity) the source loops forever; the model then returns \<open>OutOfFuel\<close>.
\<close>

function pack_level0 ::
  "nat \<Rightarrow> nat \<Rightarrow> (int \<Rightarrow> int) \<Rightarrow> Coordinate list \<Rightarrow> EdgeData list \<Rightarrow> nat \<Rightarrow> nat \<Rightarrow>
   TreeNode list \<Rightarrow> LeafNode list \<Rightarrow> error + TreeNode list \<times> LeafNode list" where
  "pack_level0 B L latToY coords xs node_index wrapped_element_index tree_nodes_in_level
     leaf_node_file =
     (if wrapped_element_index < length xs
      then
        let (current_node, file, next_element_index) =
              pack_node B L latToY coords xs node_index 0 wrapped_element_index
                (TreeNode_default B) leaf_node_file
        in if next_element_index \<le> wrapped_element_index then Inl OutOfFuel
           else pack_level0 B L latToY coords xs (Suc node_index) next_element_index
                  (tree_nodes_in_level @ [current_node]) file
      else Inr (tree_nodes_in_level, leaf_node_file))"
  by pat_completeness auto
termination
  by (relation "measure (\<lambda>(B, L, latToY, coords, xs, ni, wi, nodes, file). length xs - wi)")
     auto

subsection \<open>The upper levels, the reversal and the renumbering\<close>

function pack_parent ::
  "nat \<Rightarrow> TreeNode list \<Rightarrow> nat \<Rightarrow> nat \<Rightarrow> TreeNode \<Rightarrow> TreeNode list \<Rightarrow>
   TreeNode \<times> nat \<times> TreeNode list" where
  "pack_parent B tree_nodes_in_level processed current_child_node_index parent_node search_tree =
     (if current_child_node_index < B
      then
        if processed < length tree_nodes_in_level
        then
          let current_child_node = tree_nodes_in_level ! processed
          in pack_parent B tree_nodes_in_level (Suc processed) (Suc current_child_node_index)
               \<lparr>child_count = child_count parent_node + 1,
                minimum_bounding_rectangle =
                  MergeBoundingBoxes (minimum_bounding_rectangle parent_node)
                    (minimum_bounding_rectangle current_child_node),
                children = (children parent_node)
                  [current_child_node_index := TreeIndex_make (length search_tree) False]\<rparr>
               (search_tree @ [current_child_node])
        else pack_parent B tree_nodes_in_level processed (Suc current_child_node_index)
               parent_node search_tree
      else (parent_node, processed, search_tree))"
  by pat_completeness auto
termination
  by (relation "measure (\<lambda>(B, level, p, ci, parent, tree). B - ci)") auto

function pack_level ::
  "nat \<Rightarrow> TreeNode list \<Rightarrow> nat \<Rightarrow> TreeNode list \<Rightarrow> TreeNode list \<Rightarrow>
   error + TreeNode list \<times> TreeNode list" where
  "pack_level B tree_nodes_in_level processed tree_nodes_in_next_level search_tree =
     (if processed < length tree_nodes_in_level
      then
        let (parent_node, next_processed, tree) =
              pack_parent B tree_nodes_in_level processed 0 (TreeNode_default B) search_tree
        in if next_processed \<le> processed then Inl OutOfFuel
           else pack_level B tree_nodes_in_level next_processed
                  (tree_nodes_in_next_level @ [parent_node]) tree
      else Inr (tree_nodes_in_next_level, search_tree))"
  by pat_completeness auto
termination
  by (relation "measure (\<lambda>(B, level, p, next, tree). length level - p)") auto

text \<open>
  \<open>reorder\<close> stands for what a builder does to a level before packing it: nothing in
  \<open>PackWithHilbert\<close>, the two sorts in \<open>PackWithSTR\<close>.
\<close>

function pack_levels ::
  "nat \<Rightarrow> (TreeNode list \<Rightarrow> error + TreeNode list) \<Rightarrow> TreeNode list \<Rightarrow> TreeNode list \<Rightarrow>
   error + TreeNode list \<times> TreeNode list" where
  "pack_levels B reorder tree_nodes_in_level search_tree =
     (if 1 < length tree_nodes_in_level
      then
        (case reorder tree_nodes_in_level of
           Inl e \<Rightarrow> Inl e
         | Inr level \<Rightarrow>
             (case pack_level B level 0 [] search_tree of
                Inl e \<Rightarrow> Inl e
              | Inr (next_level, tree) \<Rightarrow>
                  if length tree_nodes_in_level \<le> length next_level then Inl OutOfFuel
                  else pack_levels B reorder next_level tree))
      else Inr (tree_nodes_in_level, search_tree))"
  by pat_completeness auto
termination
  by (relation "measure (\<lambda>(B, reorder, level, tree). length level)") auto

definition renumber :: "nat \<Rightarrow> TreeNode \<Rightarrow> TreeNode" where
  "renumber search_tree_size current_tree_node =
     current_tree_node
       \<lparr>children :=
          map (\<lambda>j. let c = children current_tree_node ! j
                   in if j < unat (child_count current_tree_node) \<and> \<not> is_leaf c
                      then c\<lparr>index :=
                             ((search_tree_size + 2 ^ 32 - index c - 1) mod 2 ^ 32) mod 2 ^ 31\<rparr>
                      else c)
            [0 ..< length (children current_tree_node)]\<rparr>"

definition finish_tree ::
  "nat \<Rightarrow> (TreeNode list \<Rightarrow> error + TreeNode list) \<Rightarrow> Coordinate list \<Rightarrow>
   TreeNode list \<times> LeafNode list \<Rightarrow> error + StaticRTree" where
  "finish_tree B reorder coords level0 =
     (case pack_levels B reorder (fst level0) [] of
        Inl e \<Rightarrow> Inl e
      | Inr (tree_nodes_in_level, search_tree) \<Rightarrow>
          (case at tree_nodes_in_level 0 of
             Inl e \<Rightarrow> Inl e
           | Inr root \<Rightarrow>
               let reversed = rev (search_tree @ [root]);
                   search_tree_size = length reversed mod 2 ^ 32
               in Inr \<lparr>m_search_tree = map (renumber search_tree_size) reversed,
                       m_coordinate_list = coords, m_leaves = snd level0\<rparr>))"

subsection \<open>\<open>PackWithHilbert\<close>\<close>

text \<open>
  \<open>hilbert\<close> stands for the key of an edge's centroid: its latitude projected again and
  \<open>GetHilbertCode\<close> applied (\<open>util/hilbert_value.hpp\<close> is not among the sources).
\<close>

definition PackWithHilbert ::
  "nat \<Rightarrow> nat \<Rightarrow> (int \<Rightarrow> int) \<Rightarrow> (Coordinate \<Rightarrow> int) \<Rightarrow> Coordinate list \<Rightarrow> EdgeData list \<Rightarrow>
   error + StaticRTree" where
  "PackWithHilbert B L latToY hilbert coords input_data_vector =
     (if \<not> edges_in_range coords input_data_vector then Inl OutOfBounds
      else
        let input_wrapper_vector =
              sort_key (\<lambda>i. hilbert (edge_centroid coords (input_data_vector ! i)))
                [0 ..< length input_data_vector];
            xs = map ((!) input_data_vector) input_wrapper_vector
        in case pack_level0 B L latToY coords xs 0 0 [] [] of
             Inl e \<Rightarrow> Inl e
           | Inr level0 \<Rightarrow> finish_tree B Inr coords level0)"

subsection \<open>\<open>PackWithSTR\<close>\<close>

text \<open>
  The integer square root that the conversion of \<open>std::sqrt\<close> to \<open>std::size_t\<close> yields.
\<close>

fun isqrt :: "nat \<Rightarrow> nat" where
  "isqrt n =
     (if n = 0 then 0
      else let r = 2 * isqrt (n div 4) in if (r + 1) * (r + 1) \<le> n then r + 1 else r)"

text \<open>
  \<open>tbb::parallel_for\<close> over a \<open>blocked_range\<close> with a grain size: the range is halved
  while it is longer than the grain size, and the body runs on each piece. A grain size of
  zero is outside what \<open>blocked_range\<close> accepts; the builder then fails with
  \<open>BadGrainsize\<close>.
\<close>

function tbb_ranges :: "nat \<Rightarrow> nat \<Rightarrow> nat \<Rightarrow> (nat \<times> nat) list" where
  "tbb_ranges grainsize b e =
     (if grainsize = 0 \<or> e - b \<le> grainsize then [(b, e)]
      else tbb_ranges grainsize b (b + (e - b) div 2) @
           tbb_ranges grainsize (b + (e - b) div 2) e)"
  by pat_completeness auto
termination
  by (relation "measure (\<lambda>(g, b, e). e - b)") auto

definition sort_slices :: "('a \<Rightarrow> int) \<Rightarrow> nat \<Rightarrow> 'a list \<Rightarrow> error + 'a list" where
  "sort_slices key grainsize xs =
     (if grainsize = 0 then Inl BadGrainsize
      else Inr (fold (\<lambda>(b, e). sort_range key b e) (tbb_ranges grainsize 0 (length xs)) xs))"

text \<open>
  Modelled from the spec: \<open>RectangleInt2D::Centroid\<close> is not among the sources; it is the
  centre of the rectangle.
\<close>

definition Centroid :: "Rectangle \<Rightarrow> Coordinate" where
  "Centroid r = \<lparr>lon = half (min_lon r + max_lon r), lat = half (min_lat r + max_lat r)\<rparr>"

definition reorder_STR :: "nat \<Rightarrow> TreeNode list \<Rightarrow> error + TreeNode list" where
  "reorder_STR B tree_nodes_in_level =
     (if B = 0 then Inl DivisionByZero
      else
        sort_slices (\<lambda>n. lat (Centroid (minimum_bounding_rectangle n)))
          (isqrt (length tree_nodes_in_level div B))
          (sort_key (\<lambda>n. lon (Centroid (minimum_bounding_rectangle n))) tree_nodes_in_level))"

definition PackWithSTR ::
  "nat \<Rightarrow> nat \<Rightarrow> (int \<Rightarrow> int) \<Rightarrow> Coordinate list \<Rightarrow> EdgeData list \<Rightarrow> error + StaticRTree" where
  "PackWithSTR B L latToY coords input_data_vector =
     (if \<not> edges_in_range coords input_data_vector then Inl OutOfBounds
      else if L = 0 then Inl DivisionByZero
      else
        case sort_slices (\<lambda>e. lat (edge_centroid coords e))
               (isqrt (length input_data_vector div L))
               (sort_key (\<lambda>e. lon (edge_centroid coords e)) input_data_vector) of
          Inl e \<Rightarrow> Inl e
        | Inr copy \<Rightarrow>
            (case pack_level0 B L latToY coords copy 0 0 [] [] of
               Inl e \<Rightarrow> Inl e
             | Inr level0 \<Rightarrow> finish_tree B (reorder_STR B) coords level0))"

subsection \<open>\<open>PackWithOMT\<close>\<close>

text \<open>
  The height of the root case, \<open>std::ceil(std::log(N) / std::log(M))\<close>, is computed in
  double precision, where the quotient of the two rounded logarithms can exceed an integer
  that it equals mathematically (\<open>N = 125\<close>, \<open>M = 5\<close> gives 4); it is the parameter
  \<open>log_ceil\<close> of the model. \<open>std::ceil(N / std::pow(M, height - 1))\<close> and
  \<open>std::ceil(std::sqrt(M))\<close> are taken as exact: the quotient rounded up, and the least \<open>c\<close>
  with \<open>c * c \<ge> M\<close>. \<open>std::ceil(N / M)\<close> on two integers is the integer quotient.
\<close>

definition ceil_div :: "nat \<Rightarrow> nat \<Rightarrow> nat" where
  "ceil_div a b = (a + b - 1) div b"

definition ceil_sqrt :: "nat \<Rightarrow> nat" where
  "ceil_sqrt M = (if isqrt M * isqrt M = M then isqrt M else isqrt M + 1)"

record Range =
  parent :: nat
  left :: nat
  right :: nat
  height :: nat

record OMT_state =
  omt_leaves :: "EdgeData list"
  omt_queue :: "Range list"
  omt_search_tree :: "TreeNode list"
  omt_leaf_file :: "LeafNode list"

definition Extend_edge :: "(int \<Rightarrow> int) \<Rightarrow> Coordinate list \<Rightarrow> Rectangle \<Rightarrow> EdgeData \<Rightarrow> Rectangle" where
  "Extend_edge latToY coords rect edge =
     (let projected_u = fromWGS84 latToY (coords ! u edge);
          projected_v = fromWGS84 latToY (coords ! v edge)
      in Extend (Extend rect (lon projected_u) (lat projected_u))
           (lon projected_v) (lat projected_v))"

text \<open>
  The leaf case of the loop: the range is copied into a fresh leaf, whose \<open>object_count\<close> is
  \<open>N - 1\<close>, the leaf is written, and the parent gets one more child. Writing past the end
  of the object array, reading a parent that is not in the node vector and writing past the
  end of the child array are \<open>OutOfBounds\<close>.
\<close>

definition OMT_leaf ::
  "nat \<Rightarrow> nat \<Rightarrow> (int \<Rightarrow> int) \<Rightarrow> Coordinate list \<Rightarrow> Range \<Rightarrow> nat \<Rightarrow> OMT_state \<Rightarrow>
   error + OMT_state" where
  "OMT_leaf B L latToY coords r N s =
     (if L < right r - left r then Inl OutOfBounds
      else
        let copied = take (right r - left r) (drop (left r) (omt_leaves s));
            objs = copied @ drop (length copied) (replicate L EdgeData_default);
            count = (of_nat (N - 1) :: 32 word);
            current_leaf =
              \<lparr>object_count = count,
               leaf_minimum_bounding_rectangle =
                 foldl (Extend_edge latToY coords) Rectangle_empty (take (unat count) objs),
               objects = objs\<rparr>
        in case at (omt_search_tree s) (parent r) of
             Inl e \<Rightarrow> Inl e
           | Inr p \<Rightarrow>
               if length (children p) \<le> unat (child_count p) then Inl OutOfBounds
               else
                 Inr (s\<lparr>omt_leaf_file := omt_leaf_file s @ [current_leaf],
                        omt_search_tree := (omt_search_tree s)
                          [parent r :=
                             \<lparr>child_count = child_count p + 1,
                              minimum_bounding_rectangle =
                                MergeBoundingBoxes (minimum_bounding_rectangle p)
                                  (leaf_minimum_bounding_rectangle current_leaf),
                              children = (children p)
                                [unat (child_count p) :=
                                   TreeIndex_make (length (omt_leaf_file s)) True]\<rparr>]\<rparr>))"

text \<open>The two \<open>for\<close> loops that cut a range into columns and the columns into groups.\<close>

function OMT_groups :: "nat \<Rightarrow> nat \<Rightarrow> nat \<Rightarrow> nat \<Rightarrow> nat \<Rightarrow> Range list \<Rightarrow> Range list" where
  "OMT_groups N2 node h right2 j queue =
     (if N2 \<noteq> 0 \<and> j \<le> right2
      then OMT_groups N2 node h right2 (j + N2)
             (queue @ [\<lparr>parent = node, left = j, right = min (j + N2 - 1) right2,
                        height = h\<rparr>])
      else queue)"
  by pat_completeness auto
termination
  by (relation "measure (\<lambda>(N2, node, h, right2, j, queue). Suc right2 - j)") auto

function OMT_columns ::
  "(EdgeData \<Rightarrow> int) \<Rightarrow> nat \<Rightarrow> nat \<Rightarrow> nat \<Rightarrow> nat \<Rightarrow> nat \<Rightarrow> nat \<Rightarrow>
   EdgeData list \<times> Range list \<Rightarrow> EdgeData list \<times> Range list" where
  "OMT_columns latkey N1 N2 node h r_right i (leaves, queue) =
     (if N1 \<noteq> 0 \<and> i < r_right
      then
        let right2 = min (i + N1 - 1) r_right
        in OMT_columns latkey N1 N2 node h r_right (i + N1)
             (sort_range latkey i right2 leaves, OMT_groups N2 node h right2 i queue)
      else (leaves, queue))"
  by pat_completeness auto
termination
  by (relation "measure (\<lambda>(latkey, N1, N2, node, h, r_right, i, lq). r_right - i)") auto

text \<open>
  The node case of the loop. A range of height zero is treated as the first item: its
  height and its fan-out are computed, and it is not entered into its parent. The height
  of the enqueued groups is \<open>height - 1\<close> in \<open>std::size_t\<close>. When the computed height is
  zero, the exponent \<open>height - 1\<close> wraps to \<open>2^64 - 1\<close> and the power is infinite or zero in
  double precision unless the branching factor is one; the fan-out is then not a number
  the division \<open>N / M\<close> is defined for, and the model reports \<open>DivisionByZero\<close>.
\<close>

definition OMT_node ::
  "nat \<Rightarrow> (nat \<Rightarrow> nat \<Rightarrow> nat) \<Rightarrow> Coordinate list \<Rightarrow> Range \<Rightarrow> nat \<Rightarrow> OMT_state \<Rightarrow>
   error + OMT_state" where
  "OMT_node B log_ceil coords r N s =
     (let tree = omt_search_tree s @ [TreeNode_default B];
          node = length tree - 1;
          h = (if height r = 0 then log_ceil N B else height r);
          M = (if height r = 0
               then if h = 0 \<and> B \<noteq> 1 then 0 else ceil_div N (B ^ (h - 1)) mod 2 ^ 32
               else B)
      in case (if height r = 0 then Inr tree
               else
                 case at tree (parent r) of
                   Inl e \<Rightarrow> Inl e
                 | Inr p \<Rightarrow>
                     if length (children p) \<le> unat (child_count p) then Inl OutOfBounds
                     else
                       Inr (tree
                         [parent r :=
                            p\<lparr>child_count := child_count p + 1,
                              children := (children p)
                                [unat (child_count p) := TreeIndex_make node False]\<rparr>])) of
           Inl e \<Rightarrow> Inl e
         | Inr tree' \<Rightarrow>
             if M = 0 then Inl DivisionByZero
             else
               let N2 = N div M;
                   N1 = N2 * ceil_sqrt M
               in if N1 = 0 then Inl OutOfFuel
                  else
                    let sorted = sort_range (\<lambda>e. lon (edge_centroid coords e)) (left r) (right r)
                                   (omt_leaves s);
                        (leaves, queue) =
                          OMT_columns (\<lambda>e. lat (edge_centroid coords e)) N1 N2 node
                            ((h + 2 ^ 64 - 1) mod 2 ^ 64) (right r) (left r)
                            (sorted, omt_queue s)
                    in Inr (s\<lparr>omt_leaves := leaves, omt_queue := queue,
                               omt_search_tree := tree'\<rparr>))"

fun OMT_loop ::
  "nat \<Rightarrow> nat \<Rightarrow> (int \<Rightarrow> int) \<Rightarrow> (nat \<Rightarrow> nat \<Rightarrow> nat) \<Rightarrow> Coordinate list \<Rightarrow> nat \<Rightarrow>
   OMT_state \<Rightarrow> error + OMT_state" where
  "OMT_loop B L latToY log_ceil coords 0 s =
     (if omt_queue s = [] then Inr s else Inl OutOfFuel)"
| "OMT_loop B L latToY log_ceil coords (Suc fuel) s =
     (case omt_queue s of
        [] \<Rightarrow> Inr s
      | r # queue \<Rightarrow>
          let N = right r - left r + 1;
              s1 = s\<lparr>omt_queue := queue\<rparr>
          in case (if N \<le> B then OMT_leaf B L latToY coords r N s1
                   else OMT_node B log_ceil coords r N s1) of
               Inl e \<Rightarrow> Inl e
             | Inr s2 \<Rightarrow> OMT_loop B L latToY log_ceil coords fuel s2)"

text \<open>
  The pass that propagates the rectangles upwards, over the node vector from its last
  element to its first. It reads the rectangle of every child in the node vector, also
  for a child that is a leaf.
\<close>

fun OMT_extend_children ::
  "TreeNode list \<Rightarrow> TreeNode \<Rightarrow> nat list \<Rightarrow> Rectangle \<Rightarrow> error + Rectangle" where
  "OMT_extend_children tree n [] rect = Inr rect"
| "OMT_extend_children tree n (i # is) rect =
     (case at (children n) i of Inl e \<Rightarrow> Inl e | Inr c \<Rightarrow>
        (case at tree (index c) of Inl e \<Rightarrow> Inl e | Inr child \<Rightarrow>
           OMT_extend_children tree n is
             (MergeBoundingBoxes rect (minimum_bounding_rectangle child))))"

fun OMT_propagate :: "nat list \<Rightarrow> TreeNode list \<Rightarrow> error + TreeNode list" where
  "OMT_propagate [] tree = Inr tree"
| "OMT_propagate (k # ks) tree =
     (let n = tree ! k
      in if child_count n = 0 \<or> is_leaf (children n ! 0) then OMT_propagate ks tree
         else
           case OMT_extend_children tree n [0 ..< unat (child_count n)]
                  (minimum_bounding_rectangle n) of
             Inl e \<Rightarrow> Inl e
           | Inr rect \<Rightarrow>
               OMT_propagate ks (tree[k := n\<lparr>minimum_bounding_rectangle := rect\<rparr>]))"

definition PackWithOMT ::
  "nat \<Rightarrow> nat \<Rightarrow> (int \<Rightarrow> int) \<Rightarrow> (nat \<Rightarrow> nat \<Rightarrow> nat) \<Rightarrow> Coordinate list \<Rightarrow> nat \<Rightarrow>
   EdgeData list \<Rightarrow> error + StaticRTree" where
  "PackWithOMT B L latToY log_ceil coords fuel input_data_vector =
     (if \<not> edges_in_range coords input_data_vector then Inl OutOfBounds
      else
        case OMT_loop B L latToY log_ceil coords fuel
               \<lparr>omt_leaves = input_data_vector,
                omt_queue = [\<lparr>parent = 0, left = 0, right = length input_data_vector,
                              height = 0\<rparr>],
                omt_search_tree = [], omt_leaf_file = []\<rparr> of
          Inl e \<Rightarrow> Inl e
        | Inr s \<Rightarrow>
            (case OMT_propagate (rev [0 ..< length (omt_search_tree s)]) (omt_search_tree s) of
               Inl e \<Rightarrow> Inl e
             | Inr tree \<Rightarrow>
                 if tree = [] then Inl OutOfBounds
                 else Inr \<lparr>m_search_tree = tree, m_coordinate_list = coords,
                           m_leaves = omt_leaf_file s\<rparr>))"

text \<open>
  The rectangle invariant of the builders: the rectangle of a node is the union of the
  rectangles of its children, looked up where the child index points, and the rectangle
  of a leaf is the union of the projected endpoint boxes of its edges.
\<close>

definition union_rects :: "Rectangle list \<Rightarrow> Rectangle" where
  "union_rects rs = foldl MergeBoundingBoxes Rectangle_empty rs"

definition node_mbr_exact :: "('a StaticRTree_scheme) \<Rightarrow> TreeNode \<Rightarrow> bool" where
  "node_mbr_exact t n \<longleftrightarrow>
     unat (child_count n) \<le> length (children n) \<and>
     list_all (index_in_range t) (take (unat (child_count n)) (children n)) \<and>
     minimum_bounding_rectangle n
       = union_rects (map (rectangle_of t) (take (unat (child_count n)) (children n)))"

definition leaf_mbr_exact :: "(int \<Rightarrow> int) \<Rightarrow> Coordinate list \<Rightarrow> LeafNode \<Rightarrow> bool" where
  "leaf_mbr_exact latToY coords leaf \<longleftrightarrow>
     unat (object_count leaf) \<le> length (objects leaf) \<and>
     leaf_minimum_bounding_rectangle leaf
       = union_rects (map (\<lambda>e. segment_box latToY (coords ! u e) (coords ! v e))
                        (leaf_edges leaf))"

definition mbr_sound :: "(int \<Rightarrow> int) \<Rightarrow> ('a StaticRTree_scheme) \<Rightarrow> bool" where
  "mbr_sound latToY t \<longleftrightarrow>
     list_all (node_mbr_exact t) (m_search_tree t) \<and>
     list_all (leaf_mbr_exact latToY (m_coordinate_list t)) (m_leaves t)"

section \<open>A small index used to instantiate the theorems\<close>

text \<open>
  Four corner points of a square and its four sides; a root with an inner node and a leaf
  below it, and one more leaf below the inner node. Leaf pages hold two edges and nodes
  four children. The latitude projection of the example doubles the latitude.
\<close>

definition example_latToY :: "int \<Rightarrow> int" where
  "example_latToY y = 2 * y"

definition example_nearest :: "Coordinate \<Rightarrow> Coordinate \<Rightarrow> Coordinate \<Rightarrow> Coordinate" where
  "example_nearest cu cv q =
     (let pu = fromWGS84 example_latToY cu; pv = fromWGS84 example_latToY cv;
          p = fromWGS84 example_latToY q
      in \<lparr>lon = clamp (min (lon pu) (lon pv)) (max (lon pu) (lon pv)) (lon p),
          lat = clamp (min (lat pu) (lat pv)) (max (lat pu) (lat pv)) (lat p)\<rparr>)"

definition example_coordinates :: "Coordinate list" where
  "example_coordinates =
     [\<lparr>lon = 0, lat = 0\<rparr>, \<lparr>lon = 1000000, lat = 0\<rparr>,
      \<lparr>lon = 0, lat = 1000000\<rparr>, \<lparr>lon = 1000000, lat = 1000000\<rparr>]"

definition example_edge :: "nat \<Rightarrow> nat \<Rightarrow> nat \<Rightarrow> bool \<Rightarrow> EdgeData" where
  "example_edge a b k fwd =
     \<lparr>u = a, v = b, forward_segment_id = \<lparr>segment_id = k, enabled = fwd\<rparr>,
      reverse_segment_id = \<lparr>segment_id = k, enabled = True\<rparr>\<rparr>"

definition example_leaves :: "LeafNode list" where
  "example_leaves =
     [\<lparr>object_count = 2,
       leaf_minimum_bounding_rectangle =
         \<lparr>min_lon = 0, max_lon = 1000000, min_lat = 0, max_lat = 2000000\<rparr>,
       objects = [example_edge 0 1 0 True, example_edge 0 2 2 True]\<rparr>,
      \<lparr>object_count = 2,
       leaf_minimum_bounding_rectangle =
         \<lparr>min_lon = 0, max_lon = 1000000, min_lat = 0, max_lat = 2000000\<rparr>,
       objects = [example_edge 2 3 1 True, example_edge 1 3 3 False]\<rparr>]"

definition example_nodes :: "TreeNode list" where
  "example_nodes =
     [\<lparr>child_count = 2,
       minimum_bounding_rectangle =
         \<lparr>min_lon = 0, max_lon = 1000000, min_lat = 0, max_lat = 2000000\<rparr>,
       children = [\<lparr>index = 1, is_leaf = False\<rparr>, \<lparr>index = 1, is_leaf = True\<rparr>,
                   TreeIndex_default, TreeIndex_default]\<rparr>,
      \<lparr>child_count = 1,
       minimum_bounding_rectangle =
         \<lparr>min_lon = 0, max_lon = 1000000, min_lat = 0, max_lat = 2000000\<rparr>,
       children = [\<lparr>index = 0, is_leaf = True\<rparr>, TreeIndex_default,
                   TreeIndex_default, TreeIndex_default]\<rparr>]"

definition example_tree :: StaticRTree where
  "example_tree =
     \<lparr>m_search_tree = example_nodes, m_coordinate_list = example_coordinates,
      m_leaves = example_leaves\<rparr>"

text \<open>A state in which the next entry to pop is a segment, used to instantiate the theorems.\<close>

definition example_state :: Nearest_state where
  "example_state =
     \<lparr>m_search_tree = example_nodes, m_coordinate_list = example_coordinates,
      m_leaves = example_leaves,
      traversal_queue =
        [QueryCandidate_node 40000000000 \<lparr>index = 1, is_leaf = True\<rparr>,
         QueryCandidate_segment 10000000000 \<lparr>index = 0, is_leaf = True\<rparr> 1
           \<lparr>lon = 0, lat = 200000\<rparr>],
      results = [example_edge 0 1 0 True]\<rparr>"



text \<open>
  Three edges on a diagonal, each between two coordinates of its own, for a build with
  \<open>BRANCHING_FACTOR = 3\<close>.
\<close>

definition omt_coordinates :: "Coordinate list" where
  "omt_coordinates =
     [\<lparr>lon = 0, lat = 0\<rparr>, \<lparr>lon = 500, lat = 500\<rparr>,
      \<lparr>lon = 1000, lat = 1000\<rparr>, \<lparr>lon = 1500, lat = 1500\<rparr>,
      \<lparr>lon = 2000, lat = 2000\<rparr>, \<lparr>lon = 2500, lat = 2500\<rparr>]"

definition omt_edges :: "EdgeData list" where
  "omt_edges = [example_edge 0 1 0 True, example_edge 2 3 1 True, example_edge 4 5 2 True]"

text \<open>
  The height function of that build: the least exponent \<open>h\<close> with \<open>M ^ h \<ge> N\<close>. The build
  asks for the height once, at \<open>N = 4\<close> and \<open>M = 3\<close>, where the quotient of the logarithms
  is 1.26 and the double computation gives 2 as well.
\<close>

fun ceil_log_from :: "nat \<Rightarrow> nat \<Rightarrow> nat \<Rightarrow> nat \<Rightarrow> nat" where
  "ceil_log_from 0 M N h = h"
| "ceil_log_from (Suc k) M N h = (if N \<le> M ^ h then h else ceil_log_from k M N (Suc h))"

definition ceil_log :: "nat \<Rightarrow> nat \<Rightarrow> nat" where
  "ceil_log N M = ceil_log_from N M N 0"

section \<open>Properties of the leaf-file mapping\<close>

lemma concat_pages:
  "n * sz \<le> length bytes \<Longrightarrow>
   concat (map (\<lambda>i. take sz (drop (i * sz) bytes)) [0 ..< n]) = take (n * sz) bytes"
proof (induction n)
  case 0
  show ?case by simp
next
  case (Suc n)
  from Suc.prems have "n * sz \<le> length bytes" by simp
  from Suc.IH [OF this]
  have "concat (map (\<lambda>i. take sz (drop (i * sz) bytes)) [0 ..< Suc n])
        = take (n * sz) bytes @ take sz (drop (n * sz) bytes)" by simp
  also have "\<dots> = take (n * sz + sz) bytes" by (rule take_add [symmetric])
  also have "n * sz + sz = Suc n * sz" by simp
  finally show ?case .
qed

text \<open>
  C8, as amended: \<open>MapLeafNodesFile\<close> does not compare the file size with the page size.
  It fails when mapping the file fails and when the mapping is not aligned; every other
  file, of any size, opens. The view then has as many leaves as whole pages fit in the
  file, every leaf is one page, and the leaves in order are the file up to the end of its
  last whole page: the bytes after it are in no leaf.
\<close>

theorem MapLeafNodesFile_whole_pages:
  "MapLeafNodesFile sizeof_LeafNode alignof_LeafNode None = Inl MappingFailed \<and>
   (data_ptr mod alignof_LeafNode \<noteq> 0 \<longrightarrow>
      MapLeafNodesFile sizeof_LeafNode alignof_LeafNode (Some (data_ptr, bytes))
      = Inl AssertionFailed) \<and>
   (data_ptr mod alignof_LeafNode = 0 \<longrightarrow>
      (\<exists>pages. MapLeafNodesFile sizeof_LeafNode alignof_LeafNode (Some (data_ptr, bytes))
               = Inr pages \<and>
         length pages = length bytes div sizeof_LeafNode \<and>
         (\<forall>page\<in>set pages. length page = sizeof_LeafNode) \<and>
         concat pages = take (length bytes div sizeof_LeafNode * sizeof_LeafNode) bytes))"
proof (intro conjI impI)
  show "MapLeafNodesFile sizeof_LeafNode alignof_LeafNode None = Inl MappingFailed"
    by (simp add: MapLeafNodesFile_def)
next
  assume "data_ptr mod alignof_LeafNode \<noteq> 0"
  then show "MapLeafNodesFile sizeof_LeafNode alignof_LeafNode (Some (data_ptr, bytes))
             = Inl AssertionFailed"
    by (simp add: MapLeafNodesFile_def)
next
  assume al: "data_ptr mod alignof_LeafNode = 0"
  let ?n = "length bytes div sizeof_LeafNode"
  let ?pages = "map (\<lambda>i. take sizeof_LeafNode (drop (i * sizeof_LeafNode) bytes)) [0 ..< ?n]"
  have fit: "?n * sizeof_LeafNode \<le> length bytes" by simp
  have "MapLeafNodesFile sizeof_LeafNode alignof_LeafNode (Some (data_ptr, bytes)) = Inr ?pages"
    using al by (simp add: MapLeafNodesFile_def)
  moreover have "length ?pages = ?n" by simp
  moreover have "\<forall>page\<in>set ?pages. length page = sizeof_LeafNode"
  proof
    fix page assume "page \<in> set ?pages"
    then obtain i where i: "i < ?n"
      and page: "page = take sizeof_LeafNode (drop (i * sizeof_LeafNode) bytes)" by auto
    from i have "Suc i \<le> ?n" by simp
    then have "Suc i * sizeof_LeafNode \<le> ?n * sizeof_LeafNode" by (rule mult_le_mono1)
    also note fit
    finally have "i * sizeof_LeafNode + sizeof_LeafNode \<le> length bytes" by simp
    then show "length page = sizeof_LeafNode" by (simp add: page)
  qed
  moreover have "concat ?pages = take (?n * sizeof_LeafNode) bytes"
    by (rule concat_pages [OF fit])
  ultimately show "\<exists>pages.
      MapLeafNodesFile sizeof_LeafNode alignof_LeafNode (Some (data_ptr, bytes)) = Inr pages \<and>
      length pages = ?n \<and> (\<forall>page\<in>set pages. length page = sizeof_LeafNode) \<and>
      concat pages = take (?n * sizeof_LeafNode) bytes"
    by blast
qed

theorem MapLeafNodesFile_whole_pages_witness:
  "MapLeafNodesFile 4 4 (Some (6, [1, 2, 3, 4, 5, 6, 7, 8, 9])) = Inl AssertionFailed \<and>
   (\<exists>pages. MapLeafNodesFile 4 4 (Some (8, [1, 2, 3, 4, 5, 6, 7, 8, 9])) = Inr pages \<and>
      length pages = 2 \<and> concat pages = [1, 2, 3, 4, 5, 6, 7, 8])"
proof -
  have a: "(6 :: nat) mod 4 \<noteq> 0" by simp
  have b: "(8 :: nat) mod 4 = 0" by simp
  note misaligned = MapLeafNodesFile_whole_pages
    [where data_ptr = "6" and alignof_LeafNode = "4" and sizeof_LeafNode = "4"
       and bytes = "[1, 2, 3, 4, 5, 6, 7, 8, 9]"]
  note aligned = MapLeafNodesFile_whole_pages
    [where data_ptr = "8" and alignof_LeafNode = "4" and sizeof_LeafNode = "4"
       and bytes = "[1, 2, 3, 4, 5, 6, 7, 8, 9]"]
  from misaligned a
  have "MapLeafNodesFile 4 4 (Some (6, [1, 2, 3, 4, 5, 6, 7, 8, 9])) = Inl AssertionFailed"
    by blast
  moreover from aligned b
  have "\<exists>pages. MapLeafNodesFile 4 4 (Some (8, [1, 2, 3, 4, 5, 6, 7, 8, 9])) = Inr pages \<and>
      length pages = 2 \<and> concat pages = [1, 2, 3, 4, 5, 6, 7, 8]"
    by auto
  ultimately show ?thesis by blast
qed

text \<open>
  C8, as stated, fails: a leaf file of 4097 bytes with pages of 4096 bytes is not a whole
  number of pages, and, mapped at an aligned address, it opens with one leaf.
\<close>

theorem MapLeafNodesFile_counterexample:
  "\<not> 4096 dvd length (replicate 4097 (0 :: 8 word)) \<and>
   MapLeafNodesFile 4096 4096 (Some (8192, replicate 4097 (0 :: 8 word)))
   = Inr [replicate 4096 0]"
  by (simp add: MapLeafNodesFile_def)

section \<open>Basic facts\<close>

lemma at_Inr_iff: "at xs i = Inr x \<longleftrightarrow> i < length xs \<and> x = xs ! i"
  by (auto simp: at_def)

lemma at_Inl_iff: "at xs i = Inl e \<longleftrightarrow> \<not> i < length xs \<and> e = OutOfBounds"
  by (auto simp: at_def)

lemma child_rectangle_Inr:
  "child_rectangle t ti = Inr r \<longleftrightarrow> index_in_range t ti \<and> r = rectangle_of t ti"
  by (auto simp: child_rectangle_def index_in_range_def rectangle_of_def at_def)

lemma ExploreLeafNode_loop_Inr:
  "ExploreLeafNode_loop nearest coords leaf leaf_id pfixed input is q = Inr q' \<longleftrightarrow>
     (\<forall>i\<in>set is. edge_in_range coords leaf i) \<and>
     q' = q @ map (leaf_entry nearest coords leaf leaf_id pfixed input) is"
proof (induction "is" arbitrary: q)
  case Nil
  show ?case by auto
next
  case (Cons i "is")
  show ?case
  proof (cases "edge_in_range coords leaf i")
    case True
    then show ?thesis
      using Cons.IH by (simp add: edge_in_range_def at_def push_def leaf_entry_def Let_def)
  next
    case False
    then show ?thesis
      by (auto simp: edge_in_range_def at_def split: sum.splits)
  qed
qed

lemma ExploreTreeNode_loop_Inr:
  "ExploreTreeNode_loop t par pfixed is q = Inr q' \<longleftrightarrow>
     (\<forall>i\<in>set is. child_in_range t par i) \<and>
     q' = q @ map (node_entry t par pfixed) is"
proof (induction "is" arbitrary: q)
  case Nil
  show ?case by auto
next
  case (Cons i "is")
  show ?case
  proof (cases "child_in_range t par i")
    case True
    then show ?thesis
      using Cons.IH
      by (simp add: child_in_range_def index_in_range_def rectangle_of_def
          child_rectangle_def at_def push_def node_entry_def Let_def)
  next
    case False
    then show ?thesis
      by (auto simp: child_in_range_def index_in_range_def child_rectangle_def at_def
          split: sum.splits if_splits)
  qed
qed

lemma ExploreLeafNode_Inr:
  "ExploreLeafNode nearest t leaf_id pfixed input q = Inr q' \<longleftrightarrow>
     index leaf_id < length (m_leaves t) \<and>
     (\<forall>i < unat (object_count (m_leaves t ! index leaf_id)).
        edge_in_range (m_coordinate_list t) (m_leaves t ! index leaf_id) i) \<and>
     q' = q @ map (leaf_entry nearest (m_coordinate_list t) (m_leaves t ! index leaf_id)
                     leaf_id pfixed input)
                [0 ..< unat (object_count (m_leaves t ! index leaf_id))]"
proof (cases "index leaf_id < length (m_leaves t)")
  case True
  then show ?thesis
    by (simp add: ExploreLeafNode_def at_def ExploreLeafNode_loop_Inr Ball_def)
next
  case False
  then show ?thesis
    by (simp add: ExploreLeafNode_def at_def)
qed

lemma ExploreTreeNode_Inr:
  "ExploreTreeNode t parent_id pfixed q = Inr q' \<longleftrightarrow>
     index parent_id < length (m_search_tree t) \<and>
     (\<forall>i < unat (child_count (m_search_tree t ! index parent_id)).
        child_in_range t (m_search_tree t ! index parent_id) i) \<and>
     q' = q @ map (node_entry t (m_search_tree t ! index parent_id) pfixed)
                [0 ..< unat (child_count (m_search_tree t ! index parent_id))]"
proof (cases "index parent_id < length (m_search_tree t)")
  case True
  then show ?thesis
    by (simp add: ExploreTreeNode_def at_def ExploreTreeNode_loop_Inr Ball_def)
next
  case False
  then show ?thesis
    by (simp add: ExploreTreeNode_def at_def)
qed

lemma is_segment_node: "\<not> is_segment (QueryCandidate_node d ti)"
  by (simp add: is_segment_def QueryCandidate_node_def)

lemma unat_of_nat_below:
  assumes "i < unat (n :: 32 word)"
  shows "unat (of_nat i :: 32 word) = i"
proof -
  have "unat n < 2 ^ 32" using unsigned_less [of n] by simp
  with assms have "i < 2 ^ 32" by simp
  then show ?thesis by (simp add: unat_of_nat)
qed

lemma is_segment_below:
  assumes "i < unat (n :: 32 word)"
  shows "is_segment (QueryCandidate_segment d ti (of_nat i) p)"
proof -
  have "unat n < 2 ^ 32" using unsigned_less [of n] by simp
  with assms have i: "i < 4294967295" by simp
  have ui: "unat (of_nat i :: 32 word) = i"
    using assms by (rule unat_of_nat_below)
  have ne: "(of_nat i :: 32 word) \<noteq> 4294967295"
  proof
    assume "(of_nat i :: 32 word) = 4294967295"
    then have "unat (of_nat i :: 32 word) = unat (4294967295 :: 32 word)" by simp
    with ui i show False by simp
  qed
  then show ?thesis
    by (simp add: is_segment_def QueryCandidate_segment_def)
qed

lemma LEAF_NODE_SIZE_bound:
  assumes "static_asserts P sz sl" and "LeafNode_layout P sz sl"
  shows "LEAF_NODE_SIZE P sz < 2 ^ 32 - 1"
proof -
  define n where "n = LEAF_NODE_SIZE P sz"
  define m where "m = n * sz"
  have "unat P < 2 ^ 32" using unsigned_less [of P] by simp
  moreover from assms have "4 + 16 + m \<le> unat P" and "0 < sz"
    by (simp_all add: static_asserts_def LeafNode_layout_def m_def n_def)
  moreover from \<open>0 < sz\<close> have "n \<le> m" by (simp add: m_def)
  ultimately have "n < 2 ^ 32 - 1" by simp
  then show ?thesis by (simp add: n_def)
qed

lemma node_entry_sentinel: "segment_index (QueryCandidate_node d ti) = 4294967295"
  by (simp add: QueryCandidate_node_def)

text \<open>
  C9: the sentinel never collides with a segment index. The seed and every entry pushed by
  \<open>ExploreTreeNode\<close> carry the sentinel \<open>2^32 - 1\<close> and are not segments. In an
  instantiation that passes the \<open>static_assert\<close>s, on an index whose leaves have the
  object array of that instantiation, every entry pushed by an \<open>ExploreLeafNode\<close> that
  returns is a segment of that leaf, and its index is below the leaf's \<open>object_count\<close>,
  which is at most \<open>LEAF_NODE_SIZE\<close>, which is below \<open>2^32 - 1\<close>. (The count of a leaf is
  read from the file and not compared with \<open>LEAF_NODE_SIZE\<close>; with a larger count the
  exploration reads past the array and does not return.)
\<close>

theorem sentinel_discrimination:
  fixes t :: StaticRTree
  assumes "static_asserts LEAF_PAGE_SIZE sizeof_EdgeDataT sizeof_LeafNode"
    and "LeafNode_layout LEAF_PAGE_SIZE sizeof_EdgeDataT sizeof_LeafNode"
    and "leaves_typed LEAF_PAGE_SIZE sizeof_EdgeDataT t"
  shows
  "\<not> is_segment (QueryCandidate_node d ti) \<and>
   segment_index (QueryCandidate_node d ti) = 2 ^ 32 - 1 \<and>
   (\<forall>q'. ExploreTreeNode t parent_id pfixed q = Inr q' \<longrightarrow>
      (\<exists>cs. q' = q @ cs \<and>
         (\<forall>c\<in>set cs. \<not> is_segment c \<and> segment_index c = 2 ^ 32 - 1))) \<and>
   (\<forall>q'. ExploreLeafNode nearest t leaf_id pfixed input q = Inr q' \<longrightarrow>
      (\<exists>cs. q' = q @ cs \<and>
         length cs = unat (object_count (m_leaves t ! index leaf_id)) \<and>
         unat (object_count (m_leaves t ! index leaf_id))
           \<le> LEAF_NODE_SIZE LEAF_PAGE_SIZE sizeof_EdgeDataT \<and>
         LEAF_NODE_SIZE LEAF_PAGE_SIZE sizeof_EdgeDataT < 2 ^ 32 - 1 \<and>
         (\<forall>c\<in>set cs. is_segment c \<and> tree_index c = leaf_id \<and>
            unat (segment_index c) < unat (object_count (m_leaves t ! index leaf_id)))))"
proof (intro conjI allI impI)
  show "\<not> is_segment (QueryCandidate_node d ti)" by (rule is_segment_node)
next
  show "segment_index (QueryCandidate_node d ti) = 2 ^ 32 - 1"
    by (simp add: node_entry_sentinel)
next
  fix q' assume "ExploreTreeNode t parent_id pfixed q = Inr q'"
  then have "q' = q @ map (node_entry t (m_search_tree t ! index parent_id) pfixed)
                [0 ..< unat (child_count (m_search_tree t ! index parent_id))]"
    by (simp add: ExploreTreeNode_Inr)
  moreover have "\<forall>c\<in>set (map (node_entry t (m_search_tree t ! index parent_id) pfixed)
                [0 ..< unat (child_count (m_search_tree t ! index parent_id))]).
        \<not> is_segment c \<and> segment_index c = 2 ^ 32 - 1"
    by (auto simp: node_entry_def is_segment_node node_entry_sentinel)
  ultimately show "\<exists>cs. q' = q @ cs \<and>
      (\<forall>c\<in>set cs. \<not> is_segment c \<and> segment_index c = 2 ^ 32 - 1)" by blast
next
  fix q' assume run: "ExploreLeafNode nearest t leaf_id pfixed input q = Inr q'"
  let ?leaf = "m_leaves t ! index leaf_id"
  let ?cs = "map (leaf_entry nearest (m_coordinate_list t) ?leaf leaf_id pfixed input)
               [0 ..< unat (object_count ?leaf)]"
  from run have q': "q' = q @ ?cs"
    and inr: "index leaf_id < length (m_leaves t)"
    and rng: "\<forall>i < unat (object_count ?leaf). edge_in_range (m_coordinate_list t) ?leaf i"
    by (simp_all add: ExploreLeafNode_Inr)
  have len: "unat (object_count ?leaf) \<le> length (objects ?leaf)"
  proof (rule ccontr)
    assume "\<not> unat (object_count ?leaf) \<le> length (objects ?leaf)"
    then have "length (objects ?leaf) < unat (object_count ?leaf)" by simp
    with rng have "edge_in_range (m_coordinate_list t) ?leaf (length (objects ?leaf))" by blast
    then show False by (simp add: edge_in_range_def)
  qed
  from assms(3) inr have "length (objects ?leaf) = LEAF_NODE_SIZE LEAF_PAGE_SIZE sizeof_EdgeDataT"
    by (simp add: leaves_typed_def list_all_length)
  with len have le: "unat (object_count ?leaf) \<le> LEAF_NODE_SIZE LEAF_PAGE_SIZE sizeof_EdgeDataT"
    by simp
  have bound: "LEAF_NODE_SIZE LEAF_PAGE_SIZE sizeof_EdgeDataT < 2 ^ 32 - 1"
    by (rule LEAF_NODE_SIZE_bound [OF assms(1,2)])
  have "\<forall>c\<in>set ?cs. is_segment c \<and> tree_index c = leaf_id \<and>
            unat (segment_index c) < unat (object_count ?leaf)"
  proof
    fix c assume "c \<in> set ?cs"
    then obtain i where i: "i < unat (object_count ?leaf)"
      and c: "c = leaf_entry nearest (m_coordinate_list t) ?leaf leaf_id pfixed input i"
      by auto
    have "segment_index c = of_nat i" "tree_index c = leaf_id"
      using c by (simp_all add: leaf_entry_def Let_def QueryCandidate_segment_def)
    moreover have "is_segment c"
      using c is_segment_below [OF i] by (simp add: leaf_entry_def Let_def)
    moreover have "unat (of_nat i :: 32 word) < unat (object_count ?leaf)"
      using i unat_of_nat_below [OF i] by simp
    ultimately show "is_segment c \<and> tree_index c = leaf_id \<and>
            unat (segment_index c) < unat (object_count ?leaf)" by simp
  qed
  moreover have "length ?cs = unat (object_count ?leaf)" by simp
  ultimately show "\<exists>cs. q' = q @ cs \<and>
         length cs = unat (object_count ?leaf) \<and>
         unat (object_count ?leaf) \<le> LEAF_NODE_SIZE LEAF_PAGE_SIZE sizeof_EdgeDataT \<and>
         LEAF_NODE_SIZE LEAF_PAGE_SIZE sizeof_EdgeDataT < 2 ^ 32 - 1 \<and>
         (\<forall>c\<in>set cs. is_segment c \<and> tree_index c = leaf_id \<and>
            unat (segment_index c) < unat (object_count ?leaf))"
    using q' le bound by blast
qed

theorem sentinel_discrimination_witness:
  "static_asserts 4096 2038 4096 \<and> LeafNode_layout 4096 2038 4096 \<and>
   leaves_typed 4096 2038 example_tree \<and> LEAF_NODE_SIZE 4096 2038 = 2 \<and>
   (\<exists>q'. ExploreTreeNode example_tree TreeIndex_default \<lparr>lon = 100000, lat = 200000\<rparr> [] = Inr q' \<and>
      q' \<noteq> [] \<and> (\<forall>c\<in>set q'. \<not> is_segment c \<and> segment_index c = 2 ^ 32 - 1)) \<and>
   (\<exists>q'. ExploreLeafNode example_nearest example_tree \<lparr>index = 1, is_leaf = True\<rparr>
           \<lparr>lon = 100000, lat = 200000\<rparr> \<lparr>lon = 100000, lat = 100000\<rparr> [] = Inr q' \<and>
      length q' = 2 \<and> (\<forall>c\<in>set q'. is_segment c \<and> unat (segment_index c) < 2))"
proof -
  have sa: "static_asserts 4096 2038 4096" by (simp add: static_asserts_def)
  have ll: "LeafNode_layout 4096 2038 4096"
    by (simp add: LeafNode_layout_def LEAF_NODE_SIZE_def)
  have sz: "LEAF_NODE_SIZE 4096 2038 = 2" by (simp add: LEAF_NODE_SIZE_def)
  have lt: "leaves_typed 4096 2038 example_tree"
    by (simp add: leaves_typed_def sz example_tree_def example_leaves_def)
  have a: "ExploreTreeNode example_tree TreeIndex_default \<lparr>lon = 100000, lat = 200000\<rparr> [] =
      Inr [QueryCandidate_node 0 \<lparr>index = 1, is_leaf = False\<rparr>,
           QueryCandidate_node 0 \<lparr>index = 1, is_leaf = True\<rparr>]"
    by code_simp
  have b: "ExploreLeafNode example_nearest example_tree \<lparr>index = 1, is_leaf = True\<rparr>
           \<lparr>lon = 100000, lat = 200000\<rparr> \<lparr>lon = 100000, lat = 100000\<rparr> [] =
      Inr [QueryCandidate_segment 3240000000000 \<lparr>index = 1, is_leaf = True\<rparr> 0
             \<lparr>lon = 100000, lat = 2000000\<rparr>,
           QueryCandidate_segment 810000000000 \<lparr>index = 1, is_leaf = True\<rparr> 1
             \<lparr>lon = 1000000, lat = 200000\<rparr>]"
    by code_simp
  have c: "object_count (m_leaves example_tree ! index \<lparr>index = 1, is_leaf = True\<rparr>) = 2"
    by (simp add: example_tree_def example_leaves_def)
  note inst = sentinel_discrimination [OF sa ll lt, where parent_id = TreeIndex_default
        and pfixed = "\<lparr>lon = 100000, lat = 200000\<rparr>" and q = "[]"
        and nearest = example_nearest and leaf_id = "\<lparr>index = 1, is_leaf = True\<rparr>"
        and input = "\<lparr>lon = 100000, lat = 100000\<rparr>"]
  from inst have "\<exists>q'. ExploreTreeNode example_tree TreeIndex_default
        \<lparr>lon = 100000, lat = 200000\<rparr> [] = Inr q' \<and>
      q' \<noteq> [] \<and> (\<forall>c\<in>set q'. \<not> is_segment c \<and> segment_index c = 2 ^ 32 - 1)"
    unfolding a by auto
  moreover from inst have "\<exists>q'. ExploreLeafNode example_nearest example_tree
           \<lparr>index = 1, is_leaf = True\<rparr>
           \<lparr>lon = 100000, lat = 200000\<rparr> \<lparr>lon = 100000, lat = 100000\<rparr> [] = Inr q' \<and>
      length q' = 2 \<and> (\<forall>c\<in>set q'. is_segment c \<and> unat (segment_index c) < 2)"
    unfolding b c by auto
  ultimately show ?thesis using sa ll lt sz by blast
qed

lemma Nearest_loop_invariant:
  assumes run: "Nearest_loop nearest pfixed input filterT terminate fuel s = Inr s'"
    and init: "I s"
    and tree: "\<And>s q. I s \<Longrightarrow> traversal_queue s \<noteq> [] \<Longrightarrow>
        \<not> is_segment (top (traversal_queue s)) \<Longrightarrow>
        \<not> is_leaf (tree_index (top (traversal_queue s))) \<Longrightarrow>
        ExploreTreeNode s (tree_index (top (traversal_queue s))) pfixed
          (pop (traversal_queue s)) = Inr q \<Longrightarrow>
        I (s\<lparr>traversal_queue := q\<rparr>)"
    and leaf: "\<And>s q. I s \<Longrightarrow> traversal_queue s \<noteq> [] \<Longrightarrow>
        \<not> is_segment (top (traversal_queue s)) \<Longrightarrow>
        is_leaf (tree_index (top (traversal_queue s))) \<Longrightarrow>
        ExploreLeafNode nearest s (tree_index (top (traversal_queue s))) pfixed input
          (pop (traversal_queue s)) = Inr q \<Longrightarrow>
        I (s\<lparr>traversal_queue := q\<rparr>)"
    and stop: "\<And>s e. I s \<Longrightarrow> traversal_queue s \<noteq> [] \<Longrightarrow>
        is_segment (top (traversal_queue s)) \<Longrightarrow>
        segment_edge s (top (traversal_queue s)) = Inr e \<Longrightarrow>
        terminate (length (results s))
          \<lparr>candidate_coordinate = fixed_projected_coordinate (top (traversal_queue s)),
           data = e\<rparr> \<Longrightarrow>
        I (s\<lparr>traversal_queue := pop (traversal_queue s)\<rparr>)"
    and skip: "\<And>s e. I s \<Longrightarrow> traversal_queue s \<noteq> [] \<Longrightarrow>
        is_segment (top (traversal_queue s)) \<Longrightarrow>
        segment_edge s (top (traversal_queue s)) = Inr e \<Longrightarrow>
        \<not> terminate (length (results s))
          \<lparr>candidate_coordinate = fixed_projected_coordinate (top (traversal_queue s)),
           data = e\<rparr> \<Longrightarrow>
        \<not> fst (filterT \<lparr>candidate_coordinate =
                 fixed_projected_coordinate (top (traversal_queue s)), data = e\<rparr>) \<Longrightarrow>
        \<not> snd (filterT \<lparr>candidate_coordinate =
                 fixed_projected_coordinate (top (traversal_queue s)), data = e\<rparr>) \<Longrightarrow>
        I (s\<lparr>traversal_queue := pop (traversal_queue s)\<rparr>)"
    and admit: "\<And>s e. I s \<Longrightarrow> traversal_queue s \<noteq> [] \<Longrightarrow>
        is_segment (top (traversal_queue s)) \<Longrightarrow>
        segment_edge s (top (traversal_queue s)) = Inr e \<Longrightarrow>
        \<not> terminate (length (results s))
          \<lparr>candidate_coordinate = fixed_projected_coordinate (top (traversal_queue s)),
           data = e\<rparr> \<Longrightarrow>
        fst (filterT \<lparr>candidate_coordinate =
                 fixed_projected_coordinate (top (traversal_queue s)), data = e\<rparr>) \<or>
        snd (filterT \<lparr>candidate_coordinate =
                 fixed_projected_coordinate (top (traversal_queue s)), data = e\<rparr>) \<Longrightarrow>
        I (s\<lparr>traversal_queue := pop (traversal_queue s),
             results := results s @
               [mask_edge e (filterT \<lparr>candidate_coordinate =
                  fixed_projected_coordinate (top (traversal_queue s)), data = e\<rparr>)]\<rparr>)"
  shows "I s'"
  using run init
proof (induction fuel arbitrary: s)
  case 0
  then show ?case by (simp split: if_splits)
next
  case (Suc fuel)
  show ?case
  proof (cases "traversal_queue s = []")
    case True
    with Suc.prems show ?thesis by simp
  next
    case ne: False
    let ?c = "top (traversal_queue s)"
    show ?thesis
    proof (cases "is_segment ?c")
      case seg: False
      show ?thesis
      proof (cases "is_leaf (tree_index ?c)")
        case True
        with Suc.prems(1) ne seg obtain q where
          q: "ExploreLeafNode nearest s (tree_index ?c) pfixed input (pop (traversal_queue s)) = Inr q"
          and r: "Nearest_loop nearest pfixed input filterT terminate fuel
                    (s\<lparr>traversal_queue := q\<rparr>) = Inr s'"
          by (auto simp: Let_def split: sum.splits)
        from leaf [OF Suc.prems(2) ne seg True q] Suc.IH [OF r] show ?thesis by simp
      next
        case False
        with Suc.prems(1) ne seg obtain q where
          q: "ExploreTreeNode s (tree_index ?c) pfixed (pop (traversal_queue s)) = Inr q"
          and r: "Nearest_loop nearest pfixed input filterT terminate fuel
                    (s\<lparr>traversal_queue := q\<rparr>) = Inr s'"
          by (auto simp: Let_def split: sum.splits)
        from tree [OF Suc.prems(2) ne seg False q] Suc.IH [OF r] show ?thesis by simp
      qed
    next
      case seg: True
      from Suc.prems(1) ne seg obtain e where e: "segment_edge s ?c = Inr e"
        by (auto simp: Let_def split: sum.splits)
      let ?cand = "\<lparr>candidate_coordinate = fixed_projected_coordinate ?c, data = e\<rparr>"
      show ?thesis
      proof (cases "terminate (length (results s)) ?cand")
        case True
        with Suc.prems(1) ne seg e have "s' = s\<lparr>traversal_queue := pop (traversal_queue s)\<rparr>"
          by (simp add: Let_def)
        with stop [OF Suc.prems(2) ne seg e True] show ?thesis by simp
      next
        case nt: False
        show ?thesis
        proof (cases "fst (filterT ?cand) \<or> snd (filterT ?cand)")
          case True
          with Suc.prems(1) ne seg e nt have
            r: "Nearest_loop nearest pfixed input filterT terminate fuel
                 (s\<lparr>traversal_queue := pop (traversal_queue s),
                    results := results s @ [mask_edge e (filterT ?cand)]\<rparr>) = Inr s'"
            by (auto simp: Let_def)
          from admit [OF Suc.prems(2) ne seg e nt True] Suc.IH [OF r] show ?thesis by simp
        next
          case False
          with Suc.prems(1) ne seg e nt have
            r: "Nearest_loop nearest pfixed input filterT terminate fuel
                 (s\<lparr>traversal_queue := pop (traversal_queue s)\<rparr>) = Inr s'"
            by (auto simp: Let_def)
          from False have f1: "\<not> fst (filterT ?cand)" and f2: "\<not> snd (filterT ?cand)" by simp_all
          from skip [OF Suc.prems(2) ne seg e nt f1 f2] Suc.IH [OF r] show ?thesis by simp
        qed
      qed
    qed
  qed
qed


section \<open>Rectangles and distances\<close>

lemma sq_mono_abs: "\<bar>a\<bar> \<le> \<bar>b\<bar> \<Longrightarrow> a * a \<le> b * (b::int)"
proof -
  assume "\<bar>a\<bar> \<le> \<bar>b\<bar>"
  then have "\<bar>a\<bar> * \<bar>a\<bar> \<le> \<bar>b\<bar> * \<bar>b\<bar>" by (intro mult_mono) simp_all
  then show ?thesis by (simp add: abs_mult_self_eq)
qed

lemma squaredEuclideanDistance_mono:
  assumes "\<bar>lon a - lon b\<bar> \<le> \<bar>lon a - lon c\<bar>" and "\<bar>lat a - lat b\<bar> \<le> \<bar>lat a - lat c\<bar>"
  shows "squaredEuclideanDistance a b \<le> squaredEuclideanDistance a c"
  unfolding squaredEuclideanDistance_def
  using sq_mono_abs [OF assms(1)] sq_mono_abs [OF assms(2)] by (intro nat_mono) linarith

lemma GetMinSquaredDist_le_point:
  assumes "Contains r p"
  shows "GetMinSquaredDist r q \<le> squaredEuclideanDistance q p"
proof (cases "Contains r q")
  case True
  then show ?thesis by (simp add: GetMinSquaredDist_def)
next
  case False
  have "squaredEuclideanDistance q
          \<lparr>lon = clamp (min_lon r) (max_lon r) (lon q),
           lat = clamp (min_lat r) (max_lat r) (lat q)\<rparr> \<le> squaredEuclideanDistance q p"
    using assms by (intro squaredEuclideanDistance_mono) (auto simp: Contains_def clamp_def)
  with False show ?thesis by (simp add: GetMinSquaredDist_def)
qed

lemma GetMinSquaredDist_mono:
  assumes "rect_subset a b" and "valid_rect a"
  shows "GetMinSquaredDist b q \<le> GetMinSquaredDist a q"
proof -
  let ?p = "\<lparr>lon = clamp (min_lon a) (max_lon a) (lon q),
             lat = clamp (min_lat a) (max_lat a) (lat q)\<rparr>"
  have "Contains a ?p"
    using assms(2) by (auto simp: Contains_def clamp_def valid_rect_def)
  then have "Contains b ?p"
    using assms(1) by (auto simp: Contains_def rect_subset_def)
  then have "GetMinSquaredDist b q \<le> squaredEuclideanDistance q ?p"
    by (rule GetMinSquaredDist_le_point)
  moreover have "squaredEuclideanDistance q ?p = GetMinSquaredDist a q"
    by (auto simp: GetMinSquaredDist_def squaredEuclideanDistance_def Contains_def clamp_def)
  ultimately show ?thesis by simp
qed

lemma segment_box_subset:
  assumes "Contains r (fromWGS84 latToY cu)" and "Contains r (fromWGS84 latToY cv)"
    and "Contains (segment_box latToY cu cv) p"
  shows "Contains r p"
  using assms
  by (auto simp: Contains_def segment_box_def)


lemma valid_rect_Contains: "Contains r p \<Longrightarrow> valid_rect r"
  by (auto simp: Contains_def valid_rect_def)

lemma valid_rect_subset: "rect_subset a b \<Longrightarrow> valid_rect a \<Longrightarrow> valid_rect b"
  by (auto simp: rect_subset_def valid_rect_def)

section \<open>The priority queue\<close>

lemma top_in_set: "q \<noteq> [] \<Longrightarrow> top q \<in> set q"
  by (simp add: top_def arg_min_list_in)

lemma top_least: "c \<in> set q \<Longrightarrow> squared_min_dist (top q) \<le> squared_min_dist c"
proof -
  assume c: "c \<in> set q"
  then have "q \<noteq> []" by auto
  then have "squared_min_dist (top q) = Min (squared_min_dist ` set q)"
    by (simp add: top_def f_arg_min_list_f)
  also have "\<dots> \<le> squared_min_dist c" using c by simp
  finally show ?thesis .
qed

lemma set_pop: "set (pop q) \<subseteq> set q"
  by (simp add: pop_def set_remove1_subset)

section \<open>Entries of the queue\<close>

lemma leaf_entry_simps:
  "squared_min_dist (leaf_entry nearest coords leaf leaf_id pfixed input i) =
     squaredEuclideanDistance pfixed
       (nearest (coords ! u (objects leaf ! i)) (coords ! v (objects leaf ! i)) input)"
  "tree_index (leaf_entry nearest coords leaf leaf_id pfixed input i) = leaf_id"
  "segment_index (leaf_entry nearest coords leaf leaf_id pfixed input i) = of_nat i"
  "fixed_projected_coordinate (leaf_entry nearest coords leaf leaf_id pfixed input i) =
     nearest (coords ! u (objects leaf ! i)) (coords ! v (objects leaf ! i)) input"
  by (simp_all add: leaf_entry_def Let_def QueryCandidate_segment_def)

lemma node_entry_simps:
  "squared_min_dist (node_entry t par pfixed i) =
     GetMinSquaredDist (rectangle_of t (children par ! i)) pfixed"
  "tree_index (node_entry t par pfixed i) = children par ! i"
  "\<not> is_segment (node_entry t par pfixed i)"
  by (simp_all add: node_entry_def QueryCandidate_node_def is_segment_def)

lemma is_segment_leaf_entry:
  "i < unat (object_count leaf) \<Longrightarrow>
   is_segment (leaf_entry nearest coords leaf leaf_id pfixed input i)"
  by (simp add: leaf_entry_def Let_def is_segment_below)

lemma entry_ok_update [simp]:
  "entry_ok (s\<lparr>traversal_queue := q\<rparr>) c = entry_ok s c"
  "entry_ok (s\<lparr>results := rs\<rparr>) c = entry_ok s c"
  by (simp_all add: entry_ok_def)

lemma live_update [simp]:
  "live (s\<lparr>traversal_queue := q\<rparr>) c = live s c"
  "live (s\<lparr>results := rs\<rparr>) c = live s c"
  by (simp_all add: live_def index_in_range_def rectangle_of_def)

lemma key_sound_update [simp]:
  "key_sound latToY nearest (s\<lparr>traversal_queue := q\<rparr>) input c = key_sound latToY nearest s input c"
  "key_sound latToY nearest (s\<lparr>results := rs\<rparr>) input c = key_sound latToY nearest s input c"
  by (simp_all add: key_sound_def rectangle_of_def live_def index_in_range_def)

lemma stored_edges_update [simp]:
  "stored_edges (s\<lparr>traversal_queue := q\<rparr>) = stored_edges s"
  "stored_edges (s\<lparr>results := rs\<rparr>) = stored_edges s"
  by (simp_all add: stored_edges_def)

lemma entry_ok_leaf_entry:
  assumes "index leaf_id < length (m_leaves t)"
    and "i < unat (object_count (m_leaves t ! index leaf_id))"
    and "edge_in_range (m_coordinate_list t) (m_leaves t ! index leaf_id) i"
  shows "entry_ok t (leaf_entry nearest (m_coordinate_list t) (m_leaves t ! index leaf_id)
                       leaf_id pfixed input i)"
  using assms by (simp add: entry_ok_def leaf_entry_simps unat_of_nat_below)

lemma entry_ok_node_entry: "entry_ok t (node_entry t' par pfixed i)"
  by (simp add: entry_ok_def node_entry_simps)

lemma stored_edgeI:
  assumes "li < length (m_leaves t)" and "i < unat (object_count (m_leaves t ! li))"
    and "i < length (objects (m_leaves t ! li))"
  shows "objects (m_leaves t ! li) ! i \<in> set (stored_edges t)"
proof -
  have "objects (m_leaves t ! li) ! i \<in> set (leaf_edges (m_leaves t ! li))"
    using assms(2,3) by (auto simp: leaf_edges_def in_set_conv_nth intro!: exI [of _ i])
  moreover have "m_leaves t ! li \<in> set (m_leaves t)" using assms(1) by simp
  ultimately show ?thesis by (auto simp: stored_edges_def)
qed

lemma segment_edge_stored:
  assumes "entry_ok t c" and "is_segment c" and "segment_edge t c = Inr e"
  shows "e = objects (m_leaves t ! index (tree_index c)) ! unat (segment_index c)"
    and "e \<in> set (stored_edges t)"
proof -
  from assms(3) show e: "e = objects (m_leaves t ! index (tree_index c)) ! unat (segment_index c)"
    by (auto simp: segment_edge_def at_def split: if_splits)
  from assms(1,2) show "e \<in> set (stored_edges t)"
    unfolding e by (intro stored_edgeI) (simp_all add: entry_ok_def edge_in_range_def)
qed


section \<open>Invariants of the nearest-neighbour loop\<close>

lemma Nearest_loop_frame:
  assumes "Nearest_loop nearest pfixed input filterT terminate fuel s = Inr s'"
  shows "m_search_tree s' = m_search_tree s \<and> m_coordinate_list s' = m_coordinate_list s \<and>
         m_leaves s' = m_leaves s"
  by (rule Nearest_loop_invariant [OF assms,
        where I = "\<lambda>x. m_search_tree x = m_search_tree s \<and>
                     m_coordinate_list x = m_coordinate_list s \<and> m_leaves x = m_leaves s"])
     simp_all

lemma Nearest_loop_entries_ok:
  assumes run: "Nearest_loop nearest pfixed input filterT terminate fuel s = Inr s'"
    and init: "\<forall>c\<in>set (traversal_queue s). entry_ok s c"
  shows "\<forall>c\<in>set (traversal_queue s'). entry_ok s' c"
proof (rule Nearest_loop_invariant [OF run,
        where I = "\<lambda>x. \<forall>c\<in>set (traversal_queue x). entry_ok x c"], goal_cases)
  case 1
  show ?case by (rule init)
next
  case (2 s q)
  then show ?case
    by (auto simp: ExploreTreeNode_Inr entry_ok_node_entry dest: subsetD [OF set_pop])
next
  case (3 s q)
  then show ?case
    by (auto simp: ExploreLeafNode_Inr entry_ok_leaf_entry dest: subsetD [OF set_pop])
next
  case (4 s e)
  then show ?case by (auto dest: subsetD [OF set_pop])
next
  case (5 s e)
  then show ?case by (auto dest: subsetD [OF set_pop])
next
  case (6 s e)
  then show ?case by (auto dest: subsetD [OF set_pop])
qed


lemma Nearest_loop_admitted:
  assumes run: "Nearest_loop nearest pfixed input filterT terminate fuel s = Inr s'"
    and init: "\<forall>c\<in>set (traversal_queue s). entry_ok s c"
    and nil: "results s = []"
  shows "\<forall>k<length (results s'). \<exists>c. data c \<in> set (stored_edges s') \<and> \<not> terminate k c \<and>
           (fst (filterT c) \<or> snd (filterT c)) \<and>
           results s' ! k = mask_edge (data c) (filterT c)"
proof -
  let ?A = "\<lambda>x. \<forall>k<length (results x). \<exists>c. data c \<in> set (stored_edges x) \<and> \<not> terminate k c \<and>
           (fst (filterT c) \<or> snd (filterT c)) \<and>
           results x ! k = mask_edge (data c) (filterT c)"
  have "(\<forall>c\<in>set (traversal_queue s'). entry_ok s' c) \<and> ?A s'"
  proof (rule Nearest_loop_invariant [OF run,
        where I = "\<lambda>x. (\<forall>c\<in>set (traversal_queue x). entry_ok x c) \<and> ?A x"], goal_cases)
    case 1
    show ?case using init nil by simp
  next
    case (2 s q)
    then show ?case
      by (auto simp: ExploreTreeNode_Inr entry_ok_node_entry dest: subsetD [OF set_pop])
  next
    case (3 s q)
    then show ?case
      by (auto simp: ExploreLeafNode_Inr entry_ok_leaf_entry dest: subsetD [OF set_pop])
  next
    case (4 s e)
    then show ?case by (auto dest: subsetD [OF set_pop])
  next
    case (5 s e)
    then show ?case by (auto dest: subsetD [OF set_pop])
  next
    case (6 s e)
    let ?c = "top (traversal_queue s)"
    let ?cand = "\<lparr>candidate_coordinate = fixed_projected_coordinate ?c, data = e\<rparr>"
    from 6 have ok: "entry_ok s ?c" by (simp add: top_in_set)
    have st: "e \<in> set (stored_edges s)"
      using segment_edge_stored(2) [OF ok 6(3) 6(4)] .
    have "?A (s\<lparr>traversal_queue := pop (traversal_queue s),
                 results := results s @ [mask_edge e (filterT ?cand)]\<rparr>)"
    proof (intro allI impI)
      fix k
      assume "k < length (results (s\<lparr>traversal_queue := pop (traversal_queue s),
                 results := results s @ [mask_edge e (filterT ?cand)]\<rparr>))"
      then consider "k < length (results s)" | "k = length (results s)" by force
      then show "\<exists>c. data c \<in> set (stored_edges (s\<lparr>traversal_queue := pop (traversal_queue s),
                 results := results s @ [mask_edge e (filterT ?cand)]\<rparr>)) \<and> \<not> terminate k c \<and>
           (fst (filterT c) \<or> snd (filterT c)) \<and>
           results (s\<lparr>traversal_queue := pop (traversal_queue s),
                 results := results s @ [mask_edge e (filterT ?cand)]\<rparr>) ! k
             = mask_edge (data c) (filterT c)"
      proof cases
        case 1
        with 6(1) show ?thesis by (simp add: nth_append)
      next
        case 2
        show ?thesis
          by (rule exI [of _ ?cand]) (use 2 6(5,6) st in \<open>simp add: nth_append\<close>)
      qed
    qed
    moreover have "\<forall>c\<in>set (pop (traversal_queue s)). entry_ok s c"
      using 6(1) by (auto dest: subsetD [OF set_pop])
    ultimately show ?case by simp
  qed
  then show ?thesis by simp
qed

lemma edge_dist_mask [simp]:
  "edge_dist latToY nearest coords input (mask_edge e m) = edge_dist latToY nearest coords input e"
  by (simp add: edge_dist_def mask_edge_def)

lemma covering_cong:
  assumes "m_search_tree x = m_search_tree s" and "m_coordinate_list x = m_coordinate_list s"
    and "m_leaves x = m_leaves s"
  shows "covering latToY x = covering latToY s"
    and "feet_on_segments latToY nearest x input = feet_on_segments latToY nearest s input"
proof -
  have "node_covers x = node_covers s"
    using assms
    by (intro ext) (simp add: node_covers_def index_in_range_def rectangle_of_def)
  then show "covering latToY x = covering latToY s"
    using assms by (simp add: covering_def)
  show "feet_on_segments latToY nearest x input = feet_on_segments latToY nearest s input"
    using assms by (simp add: feet_on_segments_def stored_edges_def)
qed

lemma sorted_inv_pop:
  assumes "sorted_inv latToY nearest input s"
  shows "sorted_inv latToY nearest input (s\<lparr>traversal_queue := pop (traversal_queue s)\<rparr>)"
  using assms unfolding sorted_inv_def
  by (auto dest: subsetD [OF set_pop])

lemma Nearest_loop_sorted_inv:
  assumes run: "Nearest_loop nearest (fromWGS84 latToY input) input filterT terminate fuel s
                  = Inr s'"
    and cov: "covering latToY s"
    and feet: "feet_on_segments latToY nearest s input"
    and init: "sorted_inv latToY nearest input s"
  shows "sorted_inv latToY nearest input s'"
proof -
  let ?pf = "fromWGS84 latToY input"
  let ?I = "\<lambda>x. sorted_inv latToY nearest input x \<and> m_search_tree x = m_search_tree s \<and>
                 m_coordinate_list x = m_coordinate_list s \<and> m_leaves x = m_leaves s"
  have "?I s'"
  proof (rule Nearest_loop_invariant [OF run, where I = ?I], goal_cases)
    case 1
    show ?case using init by simp
  next
    case (2 x q)
    let ?c = "top (traversal_queue x)"
    let ?n = "m_search_tree x ! index (tree_index ?c)"
    from 2 have inv: "sorted_inv latToY nearest input x" and
      fr: "m_search_tree x = m_search_tree s" "m_coordinate_list x = m_coordinate_list s"
          "m_leaves x = m_leaves s" by simp_all
    from 2(5) have rng: "index (tree_index ?c) < length (m_search_tree x)"
      and ch: "\<forall>i < unat (child_count ?n). child_in_range x ?n i"
      and q: "q = pop (traversal_queue x) @ map (node_entry x ?n ?pf) [0 ..< unat (child_count ?n)]"
      by (simp_all add: ExploreTreeNode_Inr)
    have cin: "?c \<in> set (traversal_queue x)" using 2(2) by (rule top_in_set)
    have covx: "covering latToY x" using cov covering_cong(1) [OF fr] by simp
    have ncov: "node_covers x ?n"
      using covx rng by (simp add: covering_def list_all_length)
    have new: "entry_ok x c' \<and> key_sound latToY nearest x input c' \<and>
       (\<forall>r\<in>set (results x). live x c' \<longrightarrow>
          edge_dist latToY nearest (m_coordinate_list x) input r \<le> squared_min_dist c')"
      if c': "c' \<in> set (map (node_entry x ?n ?pf) [0 ..< unat (child_count ?n)])" for c'
    proof -
      from c' obtain i where i: "i < unat (child_count ?n)" and c'eq: "c' = node_entry x ?n ?pf i"
        by auto
      let ?ch = "children ?n ! i"
      have inr: "i < length (children ?n)" "index_in_range x ?ch"
        using ch i by (simp_all add: child_in_range_def)
      have sub: "rect_subset (rectangle_of x ?ch) (minimum_bounding_rectangle ?n)"
        using ncov i inr by (simp add: node_covers_def list_all_length)
      have ks: "key_sound latToY nearest x input c'"
        by (simp add: c'eq key_sound_def node_entry_simps)
      have "edge_dist latToY nearest (m_coordinate_list x) input r \<le> squared_min_dist c'"
        if r: "r \<in> set (results x)" and lv: "live x c'" for r
      proof -
        from lv have vch: "valid_rect (rectangle_of x ?ch)"
          by (simp add: c'eq live_def node_entry_simps)
        with sub have vn: "valid_rect (minimum_bounding_rectangle ?n)"
          by (rule valid_rect_subset)
        have rc: "rectangle_of x (tree_index ?c) = minimum_bounding_rectangle ?n"
          using 2(4) by (simp add: rectangle_of_def)
        have lc: "live x ?c"
          using 2(4) rng vn rc by (simp add: live_def index_in_range_def)
        have "edge_dist latToY nearest (m_coordinate_list x) input r \<le> squared_min_dist ?c"
          using inv r cin lc by (auto simp: sorted_inv_def)
        also have "\<dots> \<le> GetMinSquaredDist (minimum_bounding_rectangle ?n) ?pf"
          using inv cin lc 2(3) rc by (auto simp: sorted_inv_def key_sound_def)
        also have "\<dots> \<le> GetMinSquaredDist (rectangle_of x ?ch) ?pf"
          using sub vch by (rule GetMinSquaredDist_mono)
        finally show ?thesis by (simp add: c'eq node_entry_simps)
      qed
      then show ?thesis using ks by (simp add: c'eq entry_ok_node_entry)
    qed
    have "sorted_inv latToY nearest input (x\<lparr>traversal_queue := q\<rparr>)"
      using sorted_inv_pop [OF inv] new unfolding sorted_inv_def q
      by (auto simp del: set_map set_upt)
    then show ?case using fr by simp
  next
    case (3 x q)
    let ?c = "top (traversal_queue x)"
    let ?l = "m_leaves x ! index (tree_index ?c)"
    from 3 have inv: "sorted_inv latToY nearest input x" and
      fr: "m_search_tree x = m_search_tree s" "m_coordinate_list x = m_coordinate_list s"
          "m_leaves x = m_leaves s" by simp_all
    from 3(5) have rng: "index (tree_index ?c) < length (m_leaves x)"
      and er: "\<forall>i < unat (object_count ?l). edge_in_range (m_coordinate_list x) ?l i"
      and q: "q = pop (traversal_queue x) @
                map (leaf_entry nearest (m_coordinate_list x) ?l (tree_index ?c) ?pf input)
                  [0 ..< unat (object_count ?l)]"
      by (simp_all add: ExploreLeafNode_Inr)
    have cin: "?c \<in> set (traversal_queue x)" using 3(2) by (rule top_in_set)
    have covx: "covering latToY x" using cov covering_cong(1) [OF fr] by simp
    have feetx: "feet_on_segments latToY nearest x input"
      using feet covering_cong(2) [OF fr] by simp
    have lcov: "leaf_covers latToY (m_coordinate_list x) ?l"
      using covx rng by (simp add: covering_def list_all_length)
    have new: "entry_ok x c' \<and> key_sound latToY nearest x input c' \<and>
       (\<forall>r\<in>set (results x).
          edge_dist latToY nearest (m_coordinate_list x) input r \<le> squared_min_dist c')"
      if c': "c' \<in> set (map (leaf_entry nearest (m_coordinate_list x) ?l (tree_index ?c) ?pf input)
                  [0 ..< unat (object_count ?l)])" for c'
    proof -
      from c' obtain i where i: "i < unat (object_count ?l)"
        and c'eq: "c' = leaf_entry nearest (m_coordinate_list x) ?l (tree_index ?c) ?pf input i"
        by auto
      let ?e = "objects ?l ! i"
      have eir: "edge_in_range (m_coordinate_list x) ?l i" using er i by simp
      then have il: "i < length (objects ?l)" by (simp add: edge_in_range_def)
      have seg: "is_segment c'" unfolding c'eq using i by (rule is_segment_leaf_entry)
      have ok: "entry_ok x c'" unfolding c'eq using rng i eir by (rule entry_ok_leaf_entry)
      have ks: "key_sound latToY nearest x input c'"
        using seg i by (simp add: key_sound_def c'eq leaf_entry_simps unat_of_nat_below
            edge_dist_def)
      have ein: "?e \<in> set (leaf_edges ?l)"
        using i il by (auto simp: leaf_edges_def in_set_conv_nth intro!: exI [of _ i])
      have st: "?e \<in> set (stored_edges x)" using rng i il by (rule stored_edgeI)
      have cu: "Contains (leaf_minimum_bounding_rectangle ?l)
                  (fromWGS84 latToY (m_coordinate_list x ! u ?e))"
        and cv: "Contains (leaf_minimum_bounding_rectangle ?l)
                  (fromWGS84 latToY (m_coordinate_list x ! v ?e))"
        using lcov ein by (auto simp: leaf_covers_def list_all_iff)
      have "foot_on_segment latToY nearest (m_coordinate_list x) input ?e"
        using feetx st by (simp add: feet_on_segments_def list_all_iff)
      then have foot: "Contains (leaf_minimum_bounding_rectangle ?l)
          (nearest (m_coordinate_list x ! u ?e) (m_coordinate_list x ! v ?e) input)"
        unfolding foot_on_segment_def by (rule segment_box_subset [OF cu cv])
      have lb: "GetMinSquaredDist (leaf_minimum_bounding_rectangle ?l) ?pf \<le> squared_min_dist c'"
        unfolding c'eq leaf_entry_simps using foot by (rule GetMinSquaredDist_le_point)
      have rc: "rectangle_of x (tree_index ?c) = leaf_minimum_bounding_rectangle ?l"
        using 3(4) by (simp add: rectangle_of_def)
      have lc: "live x ?c"
        using 3(4) rng rc valid_rect_Contains [OF cu] by (simp add: live_def index_in_range_def)
      have "edge_dist latToY nearest (m_coordinate_list x) input r \<le> squared_min_dist c'"
        if r: "r \<in> set (results x)" for r
      proof -
        have "edge_dist latToY nearest (m_coordinate_list x) input r \<le> squared_min_dist ?c"
          using inv r cin lc by (auto simp: sorted_inv_def)
        also have "\<dots> \<le> GetMinSquaredDist (leaf_minimum_bounding_rectangle ?l) ?pf"
          using inv cin lc 3(3) rc by (auto simp: sorted_inv_def key_sound_def)
        also note lb
        finally show ?thesis .
      qed
      with ok ks show ?thesis by simp
    qed
    have "sorted_inv latToY nearest input (x\<lparr>traversal_queue := q\<rparr>)"
      using sorted_inv_pop [OF inv] new unfolding sorted_inv_def q
      by (auto simp del: set_map set_upt)
    then show ?case using fr by simp
  next
    case (4 x e)
    then show ?case using sorted_inv_pop by simp
  next
    case (5 x e)
    then show ?case using sorted_inv_pop by simp
  next
    case (6 x e)
    let ?c = "top (traversal_queue x)"
    let ?d = "edge_dist latToY nearest (m_coordinate_list x) input"
    from 6 have inv: "sorted_inv latToY nearest input x" by simp
    have cin: "?c \<in> set (traversal_queue x)" using 6(2) by (rule top_in_set)
    have lc: "live x ?c" using 6(3) by (simp add: live_def)
    from 6(4) have e: "e = objects (m_leaves x ! index (tree_index ?c)) ! unat (segment_index ?c)"
      by (auto simp: segment_edge_def at_def split: if_splits)
    have key: "squared_min_dist ?c = ?d e"
      using inv cin 6(3) by (auto simp: sorted_inv_def key_sound_def e)
    have le: "\<forall>r\<in>set (results x). ?d r \<le> ?d e"
    proof
      fix r assume "r \<in> set (results x)"
      with inv cin lc have "?d r \<le> squared_min_dist ?c" by (simp add: sorted_inv_def)
      then show "?d r \<le> ?d e" by (simp add: key)
    qed
    have ge: "\<forall>c'\<in>set (pop (traversal_queue x)). ?d e \<le> squared_min_dist c'"
      using key top_least [of _ "traversal_queue x"] by (auto dest: subsetD [OF set_pop])
    have "sorted (map ?d (results x))" using inv by (simp add: sorted_inv_def)
    with le have "sorted (map ?d (results x @ [mask_edge e m]))" for m
      by (simp add: sorted_append)
    moreover have "\<forall>r\<in>set (results x @ [mask_edge e m]).
        \<forall>c'\<in>set (pop (traversal_queue x)). live x c' \<longrightarrow> ?d r \<le> squared_min_dist c'" for m
      using inv ge by (auto simp: sorted_inv_def dest: subsetD [OF set_pop])
    moreover have "\<forall>c'\<in>set (pop (traversal_queue x)).
        entry_ok x c' \<and> key_sound latToY nearest x input c'"
      using inv by (auto simp: sorted_inv_def dest: subsetD [OF set_pop])
    ultimately show ?case using 6(1) by (simp add: sorted_inv_def)
  qed
  then show ?thesis by simp
qed

section \<open>Termination of the traversals on well-formed trees\<close>

lemma wf_at_leaf:
  "is_leaf ti \<Longrightarrow> wf_at t h ti \<longleftrightarrow>
     index ti < length (m_leaves t) \<and> leaf_ok (m_coordinate_list t) (m_leaves t ! index ti)"
  by (cases h) simp_all

lemma wf_at_Suc: "wf_at t h ti \<Longrightarrow> wf_at t (Suc h) ti"
proof (induction h arbitrary: ti)
  case 0
  then show ?case by simp
next
  case (Suc h)
  show ?case
  proof (cases "is_leaf ti")
    case True
    with Suc.prems show ?thesis by simp
  next
    case False
    with Suc.prems have
      "list_all (wf_at t h) (take (unat (child_count (m_search_tree t ! index ti)))
                (children (m_search_tree t ! index ti)))" by simp
    then have "list_all (wf_at t (Suc h)) (take (unat (child_count (m_search_tree t ! index ti)))
                (children (m_search_tree t ! index ti)))"
      using Suc.IH by (auto simp: list_all_iff simp del: wf_at.simps)
    with False Suc.prems show ?thesis by simp
  qed
qed

lemma tree_weight_Suc: "wf_at t h ti \<Longrightarrow> tree_weight t (Suc h) ti = tree_weight t h ti"
proof (induction h arbitrary: ti)
  case 0
  then show ?case by simp
next
  case (Suc h)
  show ?case
  proof (cases "is_leaf ti")
    case True
    then show ?thesis by simp
  next
    case False
    let ?cs = "take (unat (child_count (m_search_tree t ! index ti)))
                (children (m_search_tree t ! index ti))"
    from False Suc.prems have "list_all (wf_at t h) ?cs" by simp
    then have "map (tree_weight t (Suc h)) ?cs = map (tree_weight t h) ?cs"
      using Suc.IH by (auto simp: list_all_iff simp del: wf_at.simps tree_weight.simps)
    with False show ?thesis by (simp only: tree_weight.simps if_False)
  qed
qed

lemma tree_weight_pos: "0 < tree_weight t h ti"
  by (cases h) simp_all

lemma entry_weight_pos: "0 < entry_weight t h c"
  by (simp add: entry_weight_def tree_weight_pos)

lemma sum_list_pop:
  assumes "q \<noteq> []"
  shows "sum_list (map f (pop q)) + f (top q) = sum_list (map (f :: _ \<Rightarrow> nat) q)"
proof -
  have "top q \<in> set q" using assms by (rule top_in_set)
  then have "sum_list (map f q) = f (top q) + sum_list (map f (remove1 (top q) q))"
    by (rule sum_list_map_remove1)
  then show ?thesis by (simp add: pop_def)
qed

lemma map_nth_take:
  "n \<le> length xs \<Longrightarrow> map (\<lambda>i. f (xs ! i)) [0 ..< n] = map f (take n xs)"
  by (simp add: list_eq_iff_nth_eq)

lemma wf_at_update:
  "wf_at (s\<lparr>traversal_queue := q\<rparr>) h ti = wf_at s h ti"
  "wf_at (s\<lparr>results := rs\<rparr>) h ti = wf_at s h ti"
  by (induction h arbitrary: ti; simp cong: list.pred_cong)+

lemma tree_weight_update:
  "tree_weight (s\<lparr>traversal_queue := q\<rparr>) h ti = tree_weight s h ti"
  "tree_weight (s\<lparr>results := rs\<rparr>) h ti = tree_weight s h ti"
  by (induction h arbitrary: ti; simp cong: map_cong)+

lemma entry_wf_update [simp]:
  "entry_wf (s\<lparr>traversal_queue := q\<rparr>) h c = entry_wf s h c"
  "entry_wf (s\<lparr>results := rs\<rparr>) h c = entry_wf s h c"
  by (simp_all add: entry_wf_def wf_at_update)

lemma entry_weight_update [simp]:
  "entry_weight (s\<lparr>traversal_queue := q\<rparr>) h c = entry_weight s h c"
  "entry_weight (s\<lparr>results := rs\<rparr>) h c = entry_weight s h c"
  by (simp_all add: entry_weight_def tree_weight_update)


lemma wf_at_in_range: "wf_at t h ti \<Longrightarrow> index_in_range t ti"
  by (cases h) (auto simp: index_in_range_def split: if_splits)

lemma sum_entry_weight_empty:
  assumes "sum_list (map (entry_weight t h) q) = 0"
  shows "q = []"
proof (cases q)
  case Nil
  then show ?thesis .
next
  case (Cons c cs)
  with assms entry_weight_pos [of t h c] show ?thesis by simp
qed

lemma leaf_ok_edge_in_range:
  assumes "leaf_ok coords leaf" and "i < unat (object_count leaf)"
  shows "edge_in_range coords leaf i"
proof -
  from assms have il: "i < length (objects leaf)" by (simp add: leaf_ok_def)
  with assms(2) have "objects leaf ! i \<in> set (leaf_edges leaf)"
    by (auto simp: leaf_edges_def in_set_conv_nth intro!: exI [of _ i])
  with assms(1) il show ?thesis
    by (auto simp: leaf_ok_def list_all_iff edge_in_range_def)
qed

lemma entry_ok_segment_edge:
  assumes "entry_ok t c" and "is_segment c"
  shows "\<exists>e. segment_edge t c = Inr e"
  using assms by (simp add: entry_ok_def segment_edge_def at_def edge_in_range_def)

lemma sum_list_const1:
  "(\<And>x. x \<in> set xs \<Longrightarrow> f x = (1::nat)) \<Longrightarrow> sum_list (map f xs) = length xs"
  by (induction xs) auto

lemma explore_leaf_wf:
  assumes leaf: "is_leaf ti" and wf: "wf_at t h ti" and q: "\<forall>c\<in>set q. entry_wf t h c"
  shows "\<exists>q'. ExploreLeafNode nearest t ti pfixed input q = Inr q' \<and>
           (\<forall>c\<in>set q'. entry_wf t h c) \<and>
           sum_list (map (entry_weight t h) q') + 1
             = sum_list (map (entry_weight t h) q) + tree_weight t h ti"
proof -
  let ?l = "m_leaves t ! index ti"
  let ?new = "map (leaf_entry nearest (m_coordinate_list t) ?l ti pfixed input)
                [0 ..< unat (object_count ?l)]"
  from leaf wf have rng: "index ti < length (m_leaves t)"
    and ok: "leaf_ok (m_coordinate_list t) ?l" by (simp_all add: wf_at_leaf)
  have er: "\<forall>i < unat (object_count ?l). edge_in_range (m_coordinate_list t) ?l i"
    using ok by (simp add: leaf_ok_edge_in_range)
  have run: "ExploreLeafNode nearest t ti pfixed input q = Inr (q @ ?new)"
    using rng er by (simp add: ExploreLeafNode_Inr)
  have new: "entry_wf t h c \<and> entry_weight t h c = 1" if "c \<in> set ?new" for c
  proof -
    from that obtain i where i: "i < unat (object_count ?l)"
      and c: "c = leaf_entry nearest (m_coordinate_list t) ?l ti pfixed input i" by auto
    have "is_segment c" unfolding c using i by (rule is_segment_leaf_entry)
    moreover have "entry_ok t c" unfolding c using rng i er by (intro entry_ok_leaf_entry) simp_all
    ultimately show ?thesis by (simp add: entry_wf_def entry_weight_def)
  qed
  then have "sum_list (map (entry_weight t h) ?new) = length ?new"
    by (intro sum_list_const1) blast
  then have "sum_list (map (entry_weight t h) ?new) = unat (object_count ?l)"
    by simp
  moreover have "tree_weight t h ti = 1 + unat (object_count ?l)"
    using leaf by (cases h) simp_all
  ultimately have "sum_list (map (entry_weight t h) (q @ ?new)) + 1
             = sum_list (map (entry_weight t h) q) + tree_weight t h ti" by simp
  moreover have "\<forall>c\<in>set (q @ ?new). entry_wf t h c" using q new by auto
  ultimately show ?thesis using run by blast
qed

lemma explore_tree_wf:
  assumes leaf: "\<not> is_leaf ti" and wf: "wf_at t h ti" and q: "\<forall>c\<in>set q. entry_wf t h c"
  shows "\<exists>q'. ExploreTreeNode t ti pfixed q = Inr q' \<and>
           (\<forall>c\<in>set q'. entry_wf t h c) \<and>
           sum_list (map (entry_weight t h) q') + 1
             = sum_list (map (entry_weight t h) q) + tree_weight t h ti"
proof -
  let ?n = "m_search_tree t ! index ti"
  let ?cs = "take (unat (child_count ?n)) (children ?n)"
  let ?new = "map (node_entry t ?n pfixed) [0 ..< unat (child_count ?n)]"
  from leaf wf obtain h' where h: "h = Suc h'" by (cases h) auto
  from leaf wf have rng: "index ti < length (m_search_tree t)"
    and len: "unat (child_count ?n) \<le> length (children ?n)"
    and ch: "list_all (wf_at t h') ?cs" by (simp_all add: h)
  have chi: "wf_at t h' (children ?n ! i)" if "i < unat (child_count ?n)" for i
  proof -
    from that len have "children ?n ! i \<in> set ?cs"
      by (auto simp: in_set_conv_nth intro!: exI [of _ i])
    with ch show ?thesis by (simp add: list_all_iff)
  qed
  have cr: "\<forall>i < unat (child_count ?n). child_in_range t ?n i"
    using len chi by (auto simp: child_in_range_def intro: wf_at_in_range)
  have run: "ExploreTreeNode t ti pfixed q = Inr (q @ ?new)"
    using rng cr by (simp add: ExploreTreeNode_Inr)
  have wfn: "entry_wf t h c" if "c \<in> set ?new" for c
  proof -
    from that obtain i where i: "i < unat (child_count ?n)"
      and c: "c = node_entry t ?n pfixed i" by auto
    have "wf_at t h (children ?n ! i)" unfolding h using chi [OF i] by (rule wf_at_Suc)
    then show ?thesis by (simp add: c entry_wf_def entry_ok_node_entry node_entry_simps)
  qed
  have "map (entry_weight t h) ?new
          = map (\<lambda>i. tree_weight t h' (children ?n ! i)) [0 ..< unat (child_count ?n)]"
    using chi by (simp add: entry_weight_def node_entry_simps h tree_weight_Suc
        del: tree_weight.simps)
  also have "\<dots> = map (tree_weight t h') ?cs" using len by (rule map_nth_take)
  finally have "sum_list (map (entry_weight t h) ?new) + 1 = tree_weight t h ti"
    using leaf by (simp add: h)
  then have "sum_list (map (entry_weight t h) (q @ ?new)) + 1
             = sum_list (map (entry_weight t h) q) + tree_weight t h ti" by simp
  moreover have "\<forall>c\<in>set (q @ ?new). entry_wf t h c" using q wfn by auto
  ultimately show ?thesis using run by blast
qed

lemma Nearest_loop_terminates:
  assumes "\<forall>c\<in>set (traversal_queue s). entry_wf s h c"
    and "sum_list (map (entry_weight s h) (traversal_queue s)) \<le> fuel"
  shows "\<exists>s'. Nearest_loop nearest pfixed input filterT terminate fuel s = Inr s'"
  using assms
proof (induction fuel arbitrary: s)
  case 0
  then have "traversal_queue s = []" by (simp add: sum_entry_weight_empty)
  then show ?case by simp
next
  case (Suc fuel)
  show ?case
  proof (cases "traversal_queue s = []")
    case True
    then show ?thesis by simp
  next
    case ne: False
    let ?c = "top (traversal_queue s)"
    let ?rest = "pop (traversal_queue s)"
    have cin: "?c \<in> set (traversal_queue s)" using ne by (rule top_in_set)
    with Suc.prems(1) have cwf: "entry_wf s h ?c" by blast
    have rest: "\<forall>c\<in>set ?rest. entry_wf s h c"
      using Suc.prems(1) by (auto dest: subsetD [OF set_pop])
    have sum: "sum_list (map (entry_weight s h) ?rest) + entry_weight s h ?c \<le> Suc fuel"
      using sum_list_pop [OF ne, of "entry_weight s h"] Suc.prems(2) by simp
    show ?thesis
    proof (cases "is_segment ?c")
      case seg: True
      from cwf seg obtain e where e: "segment_edge s ?c = Inr e"
        using entry_ok_segment_edge by (auto simp: entry_wf_def)
      from sum seg have le: "sum_list (map (entry_weight s h) ?rest) \<le> fuel"
        by (simp add: entry_weight_def)
      have 1: "\<exists>s'. Nearest_loop nearest pfixed input filterT terminate fuel
                  (s\<lparr>traversal_queue := ?rest\<rparr>) = Inr s'"
        by (rule Suc.IH) (use rest le in simp_all)
      have 2: "\<exists>s'. Nearest_loop nearest pfixed input filterT terminate fuel
                  (s\<lparr>traversal_queue := ?rest, results := rs\<rparr>) = Inr s'" for rs
        by (rule Suc.IH) (use rest le in simp_all)
      show ?thesis using ne seg e 1 2 by (simp add: Let_def)
    next
      case seg: False
      with cwf have wf: "wf_at s h (tree_index ?c)" by (simp add: entry_wf_def)
      have w: "entry_weight s h ?c = tree_weight s h (tree_index ?c)"
        using seg by (simp add: entry_weight_def)
      show ?thesis
      proof (cases "is_leaf (tree_index ?c)")
        case True
        from explore_leaf_wf [OF True wf rest, of nearest pfixed input] obtain q' where
          run: "ExploreLeafNode nearest s (tree_index ?c) pfixed input ?rest = Inr q'"
          and q'wf: "\<forall>c\<in>set q'. entry_wf s h c"
          and q'sum: "sum_list (map (entry_weight s h) q') + 1
             = sum_list (map (entry_weight s h) ?rest) + tree_weight s h (tree_index ?c)"
          by blast
        have "\<exists>s'. Nearest_loop nearest pfixed input filterT terminate fuel
                  (s\<lparr>traversal_queue := q'\<rparr>) = Inr s'"
          by (rule Suc.IH) (use q'wf q'sum sum w in simp_all)
        then show ?thesis using ne seg True run by (simp add: Let_def)
      next
        case False
        from explore_tree_wf [OF False wf rest, of pfixed] obtain q' where
          run: "ExploreTreeNode s (tree_index ?c) pfixed ?rest = Inr q'"
          and q'wf: "\<forall>c\<in>set q'. entry_wf s h c"
          and q'sum: "sum_list (map (entry_weight s h) q') + 1
             = sum_list (map (entry_weight s h) ?rest) + tree_weight s h (tree_index ?c)"
          by blast
        have "\<exists>s'. Nearest_loop nearest pfixed input filterT terminate fuel
                  (s\<lparr>traversal_queue := q'\<rparr>) = Inr s'"
          by (rule Suc.IH) (use q'wf q'sum sum w in simp_all)
        then show ?thesis using ne seg False run by (simp add: Let_def)
      qed
    qed
  qed
qed

section \<open>The initial state of a nearest-neighbour query\<close>

lemma Nearest_init_simps [simp]:
  "m_search_tree (Nearest_init t) = m_search_tree t"
  "m_coordinate_list (Nearest_init t) = m_coordinate_list t"
  "m_leaves (Nearest_init t) = m_leaves t"
  "traversal_queue (Nearest_init t) = [QueryCandidate_node 0 TreeIndex_default]"
  "results (Nearest_init t) = []"
  by (simp_all add: Nearest_init_def)

lemma wf_at_cong:
  assumes "m_search_tree x = m_search_tree s" and "m_coordinate_list x = m_coordinate_list s"
    and "m_leaves x = m_leaves s"
  shows "wf_at x h ti = wf_at s h ti"
  using assms by (induction h arbitrary: ti) (simp_all cong: list.pred_cong)

lemma tree_weight_cong:
  assumes "m_search_tree x = m_search_tree s" and "m_leaves x = m_leaves s"
  shows "tree_weight x h ti = tree_weight s h ti"
  using assms by (induction h arbitrary: ti) (simp_all cong: map_cong)

lemma stored_edges_cong: "m_leaves x = m_leaves s \<Longrightarrow> stored_edges x = stored_edges s"
  by (simp add: stored_edges_def)

lemma Nearest_Inr:
  assumes "Nearest latToY nearest fuel t input filterT terminate = Inr rs"
  obtains s' where
    "Nearest_loop nearest (fromWGS84 latToY input) input filterT terminate fuel (Nearest_init t)
       = Inr s'"
    and "results s' = rs"
    and "m_search_tree s' = m_search_tree t" and "m_coordinate_list s' = m_coordinate_list t"
    and "m_leaves s' = m_leaves t"
proof -
  from assms obtain s' where run:
    "Nearest_loop nearest (fromWGS84 latToY input) input filterT terminate fuel (Nearest_init t)
       = Inr s'" and rs: "results s' = rs"
    by (cases "Nearest_loop nearest (fromWGS84 latToY input) input filterT terminate fuel
                 (Nearest_init t)") (auto simp: Nearest_def)
  from Nearest_loop_frame [OF run] that [OF run rs] show ?thesis by simp
qed

lemma QueryCandidate_node_simps [simp]:
  "squared_min_dist (QueryCandidate_node d ti) = d"
  "tree_index (QueryCandidate_node d ti) = ti"
  by (simp_all add: QueryCandidate_node_def)

lemma entry_ok_seed: "entry_ok t (QueryCandidate_node d ti)"
  by (simp add: entry_ok_def is_segment_node)

lemma Nearest_admitted:
  assumes "Nearest latToY nearest fuel t input filterT terminate = Inr rs"
  shows "\<forall>k<length rs. \<exists>c. data c \<in> set (stored_edges t) \<and> \<not> terminate k c \<and>
           (fst (filterT c) \<or> snd (filterT c)) \<and> rs ! k = mask_edge (data c) (filterT c)"
proof -
  from assms obtain s' where run:
    "Nearest_loop nearest (fromWGS84 latToY input) input filterT terminate fuel (Nearest_init t)
       = Inr s'" and rs: "results s' = rs" and l: "m_leaves s' = m_leaves t"
    by (rule Nearest_Inr)
  have "stored_edges s' = stored_edges t" using l by (rule stored_edges_cong)
  with Nearest_loop_admitted [OF run] rs show ?thesis by (simp add: entry_ok_seed)
qed

lemma Nearest_terminates:
  assumes "wf_at t h TreeIndex_default" and "tree_weight t h TreeIndex_default \<le> fuel"
  shows "\<exists>rs. Nearest latToY nearest fuel t input filterT terminate = Inr rs"
proof -
  have "wf_at (Nearest_init t) h TreeIndex_default"
    using assms(1) by (simp add: wf_at_cong [of "Nearest_init t" t])
  moreover have "tree_weight (Nearest_init t) h TreeIndex_default \<le> fuel"
    using assms(2) by (simp add: tree_weight_cong [of "Nearest_init t" t])
  ultimately have "\<exists>s'. Nearest_loop nearest (fromWGS84 latToY input) input filterT terminate
      fuel (Nearest_init t) = Inr s'"
    by (intro Nearest_loop_terminates [where h = h])
       (simp_all add: entry_wf_def entry_ok_seed entry_weight_def is_segment_node)
  then show ?thesis by (auto simp: Nearest_def)
qed

section \<open>Ordering of the results\<close>

lemma sorted_inv_init: "sorted_inv latToY nearest input (Nearest_init t)"
  by (simp add: sorted_inv_def entry_ok_seed key_sound_def is_segment_node)

text \<open>
  C1: on a tree whose rectangles cover what lies below them, and with foot points that lie
  on their segments, the list that \<open>Nearest\<close> returns is in non-decreasing order of the
  squared distance between the projected query point and the foot point on each edge.
\<close>

theorem Nearest_results_sorted:
  assumes "covering latToY t"
    and "feet_on_segments latToY nearest t input_coordinate"
    and "Nearest latToY nearest fuel t input_coordinate filterT terminate = Inr rs"
    and "i < j" and "j < length rs"
  shows "edge_dist latToY nearest (m_coordinate_list t) input_coordinate (rs ! i)
           \<le> edge_dist latToY nearest (m_coordinate_list t) input_coordinate (rs ! j)"
proof -
  from assms(3) obtain s' where run:
    "Nearest_loop nearest (fromWGS84 latToY input_coordinate) input_coordinate filterT terminate
       fuel (Nearest_init t) = Inr s'" and rs: "results s' = rs"
    and fr: "m_coordinate_list s' = m_coordinate_list t"
    by (rule Nearest_Inr)
  have c: "covering latToY (Nearest_init t)"
    using assms(1) covering_cong(1) [of "Nearest_init t" t] by simp
  have f: "feet_on_segments latToY nearest (Nearest_init t) input_coordinate"
    using assms(2) covering_cong(2) [of "Nearest_init t" t] by simp
  have "sorted_inv latToY nearest input_coordinate s'"
    using run c f sorted_inv_init by (rule Nearest_loop_sorted_inv)
  then have "sorted (map (edge_dist latToY nearest (m_coordinate_list t) input_coordinate) rs)"
    by (simp add: sorted_inv_def rs fr)
  then show ?thesis
    using assms(4,5) by (simp add: sorted_iff_nth_mono)
qed

theorem Nearest_results_sorted_witness:
  "covering example_latToY example_tree \<and>
   feet_on_segments example_latToY example_nearest example_tree \<lparr>lon = 100000, lat = 100000\<rparr> \<and>
   Nearest example_latToY example_nearest 20 example_tree \<lparr>lon = 100000, lat = 100000\<rparr>
     (\<lambda>_. (True, True)) (\<lambda>_ _. False)
     = Inr [example_edge 0 2 2 True, example_edge 0 1 0 True,
            example_edge 1 3 3 False, example_edge 2 3 1 True] \<and>
   edge_dist example_latToY example_nearest (m_coordinate_list example_tree)
       \<lparr>lon = 100000, lat = 100000\<rparr> (example_edge 0 1 0 True)
     \<le> edge_dist example_latToY example_nearest (m_coordinate_list example_tree)
       \<lparr>lon = 100000, lat = 100000\<rparr> (example_edge 1 3 3 False)"
proof -
  have c: "covering example_latToY example_tree" by code_simp
  have f: "feet_on_segments example_latToY example_nearest example_tree
             \<lparr>lon = 100000, lat = 100000\<rparr>" by code_simp
  have n: "Nearest example_latToY example_nearest 20 example_tree \<lparr>lon = 100000, lat = 100000\<rparr>
     (\<lambda>_. (True, True)) (\<lambda>_ _. False)
     = Inr [example_edge 0 2 2 True, example_edge 0 1 0 True,
            example_edge 1 3 3 False, example_edge 2 3 1 True]" by code_simp
  from Nearest_results_sorted [OF c f n, of 1 2] c f n show ?thesis by simp
qed

lemma leaf_entry_lower_bound:
  assumes "leaf_covers latToY coords leaf"
    and "i < unat (object_count leaf)" and "i < length (objects leaf)"
    and "foot_on_segment latToY nearest coords input_coordinate (objects leaf ! i)"
  shows "GetMinSquaredDist (leaf_minimum_bounding_rectangle leaf) pfixed
         \<le> squared_min_dist (leaf_entry nearest coords leaf leaf_id pfixed input_coordinate i)"
proof -
  let ?e = "objects leaf ! i"
  have "?e \<in> set (leaf_edges leaf)"
    using assms(2,3) by (auto simp: leaf_edges_def in_set_conv_nth intro!: exI [of _ i])
  with assms(1) have
    cu: "Contains (leaf_minimum_bounding_rectangle leaf) (fromWGS84 latToY (coords ! u ?e))" and
    cv: "Contains (leaf_minimum_bounding_rectangle leaf) (fromWGS84 latToY (coords ! v ?e))"
    by (auto simp: leaf_covers_def list_all_iff)
  have "Contains (leaf_minimum_bounding_rectangle leaf)
          (nearest (coords ! u ?e) (coords ! v ?e) input_coordinate)"
    using assms(4) unfolding foot_on_segment_def by (rule segment_box_subset [OF cu cv])
  then show ?thesis
    unfolding leaf_entry_simps by (rule GetMinSquaredDist_le_point)
qed

text \<open>
  C2: the key under which \<open>ExploreTreeNode\<close> queues a leaf is the minimal squared distance
  from the projected query point to the leaf's rectangle, the key under which
  \<open>ExploreLeafNode\<close> queues segment \<open>i\<close> of that leaf is the squared distance from the
  projected query point to the clamped foot point on the segment, and the first does not
  exceed the second, for every query point and every segment below \<open>object_count\<close>, when
  the leaf's rectangle contains the projected endpoints of its edges and the foot point
  lies in the bounding box of its segment.
\<close>

theorem leaf_lower_bound:
  fixes t :: StaticRTree
  assumes tree: "ExploreTreeNode t parent_id (fromWGS84 latToY input_coordinate) q0 = Inr q1"
    and leaf: "ExploreLeafNode nearest t leaf_id (fromWGS84 latToY input_coordinate)
                 input_coordinate q = Inr q'"
    and k: "k < unat (child_count (m_search_tree t ! index parent_id))"
    and child: "children (m_search_tree t ! index parent_id) ! k = leaf_id"
    and isleaf: "is_leaf leaf_id"
    and cov: "leaf_covers latToY (m_coordinate_list t) (m_leaves t ! index leaf_id)"
    and feet: "list_all (foot_on_segment latToY nearest (m_coordinate_list t) input_coordinate)
                 (leaf_edges (m_leaves t ! index leaf_id))"
  shows
    "tree_index (q1 ! (length q0 + k)) = leaf_id \<and>
     \<not> is_segment (q1 ! (length q0 + k)) \<and>
     squared_min_dist (q1 ! (length q0 + k))
       = GetMinSquaredDist (leaf_minimum_bounding_rectangle (m_leaves t ! index leaf_id))
           (fromWGS84 latToY input_coordinate) \<and>
     length q' = length q + unat (object_count (m_leaves t ! index leaf_id)) \<and>
     (\<forall>i < unat (object_count (m_leaves t ! index leaf_id)).
        is_segment (q' ! (length q + i)) \<and>
        tree_index (q' ! (length q + i)) = leaf_id \<and>
        segment_index (q' ! (length q + i)) = of_nat i \<and>
        fixed_projected_coordinate (q' ! (length q + i))
          = nearest (m_coordinate_list t ! u (objects (m_leaves t ! index leaf_id) ! i))
              (m_coordinate_list t ! v (objects (m_leaves t ! index leaf_id) ! i))
              input_coordinate \<and>
        squared_min_dist (q' ! (length q + i))
          = squaredEuclideanDistance (fromWGS84 latToY input_coordinate)
              (fixed_projected_coordinate (q' ! (length q + i))) \<and>
        squared_min_dist (q1 ! (length q0 + k)) \<le> squared_min_dist (q' ! (length q + i)))"
proof -
  let ?p = "fromWGS84 latToY input_coordinate"
  let ?n = "m_search_tree t ! index parent_id"
  let ?leaf = "m_leaves t ! index leaf_id"
  let ?coords = "m_coordinate_list t"
  from tree have q1: "q1 = q0 @ map (node_entry t ?n ?p) [0 ..< unat (child_count ?n)]"
    by (simp add: ExploreTreeNode_Inr)
  from leaf have q': "q' = q @ map (leaf_entry nearest ?coords ?leaf leaf_id ?p input_coordinate)
                               [0 ..< unat (object_count ?leaf)]"
    and rng: "\<forall>i < unat (object_count ?leaf). edge_in_range ?coords ?leaf i"
    by (simp_all add: ExploreLeafNode_Inr)
  from q1 k have e1: "q1 ! (length q0 + k) = node_entry t ?n ?p k" by simp
  have lb: "squared_min_dist (q1 ! (length q0 + k))
            = GetMinSquaredDist (leaf_minimum_bounding_rectangle ?leaf) ?p"
    using child isleaf by (simp add: e1 node_entry_simps rectangle_of_def)
  have each: "is_segment (q' ! (length q + i)) \<and>
        tree_index (q' ! (length q + i)) = leaf_id \<and>
        segment_index (q' ! (length q + i)) = of_nat i \<and>
        fixed_projected_coordinate (q' ! (length q + i))
          = nearest (?coords ! u (objects ?leaf ! i)) (?coords ! v (objects ?leaf ! i))
              input_coordinate \<and>
        squared_min_dist (q' ! (length q + i))
          = squaredEuclideanDistance ?p (fixed_projected_coordinate (q' ! (length q + i))) \<and>
        squared_min_dist (q1 ! (length q0 + k)) \<le> squared_min_dist (q' ! (length q + i))"
    if i: "i < unat (object_count ?leaf)" for i
  proof -
    from q' i have e: "q' ! (length q + i)
                       = leaf_entry nearest ?coords ?leaf leaf_id ?p input_coordinate i" by simp
    from rng i have il: "i < length (objects ?leaf)" by (simp add: edge_in_range_def)
    with i have "objects ?leaf ! i \<in> set (leaf_edges ?leaf)"
      by (auto simp: leaf_edges_def in_set_conv_nth intro!: exI [of _ i])
    with feet have foot: "foot_on_segment latToY nearest ?coords input_coordinate
                            (objects ?leaf ! i)"
      by (simp add: list_all_iff)
    have "GetMinSquaredDist (leaf_minimum_bounding_rectangle ?leaf) ?p
          \<le> squared_min_dist (leaf_entry nearest ?coords ?leaf leaf_id ?p input_coordinate i)"
      by (rule leaf_entry_lower_bound [OF cov i il foot])
    moreover have "is_segment (leaf_entry nearest ?coords ?leaf leaf_id ?p input_coordinate i)"
      using is_segment_below [OF i] by (simp add: leaf_entry_def Let_def)
    ultimately show ?thesis
      unfolding e lb by (simp add: leaf_entry_simps)
  qed
  have a: "tree_index (q1 ! (length q0 + k)) = leaf_id"
    using child by (simp add: e1 node_entry_simps)
  have b: "\<not> is_segment (q1 ! (length q0 + k))"
    by (simp add: e1 node_entry_simps)
  have c: "length q' = length q + unat (object_count ?leaf)"
    using q' by simp
  from a b lb c each show ?thesis by blast
qed

theorem leaf_lower_bound_witness:
  "\<exists>q1 q'.
     ExploreTreeNode example_tree TreeIndex_default
       (fromWGS84 example_latToY \<lparr>lon = 1500000, lat = 100000\<rparr>) [] = Inr q1 \<and>
     ExploreLeafNode example_nearest example_tree \<lparr>index = 1, is_leaf = True\<rparr>
       (fromWGS84 example_latToY \<lparr>lon = 1500000, lat = 100000\<rparr>)
       \<lparr>lon = 1500000, lat = 100000\<rparr> [] = Inr q' \<and>
     tree_index (q1 ! 1) = \<lparr>index = 1, is_leaf = True\<rparr> \<and>
     squared_min_dist (q1 ! 1) = 250000000000 \<and>
     length q' = 2 \<and>
     squared_min_dist (q' ! 0) = 3490000000000 \<and>
     squared_min_dist (q' ! 1) = 250000000000 \<and>
     squared_min_dist (q1 ! 1) \<le> squared_min_dist (q' ! 0) \<and>
     squared_min_dist (q1 ! 1) \<le> squared_min_dist (q' ! 1)"
proof -
  let ?q1 = "[QueryCandidate_node 250000000000 \<lparr>index = 1, is_leaf = False\<rparr>,
              QueryCandidate_node 250000000000 \<lparr>index = 1, is_leaf = True\<rparr>]"
  let ?q' = "[QueryCandidate_segment 3490000000000 \<lparr>index = 1, is_leaf = True\<rparr> 0
                \<lparr>lon = 1000000, lat = 2000000\<rparr>,
              QueryCandidate_segment 250000000000 \<lparr>index = 1, is_leaf = True\<rparr> 1
                \<lparr>lon = 1000000, lat = 200000\<rparr>]"
  have a: "ExploreTreeNode example_tree TreeIndex_default
       (fromWGS84 example_latToY \<lparr>lon = 1500000, lat = 100000\<rparr>) [] = Inr ?q1"
    by code_simp
  have b: "ExploreLeafNode example_nearest example_tree \<lparr>index = 1, is_leaf = True\<rparr>
       (fromWGS84 example_latToY \<lparr>lon = 1500000, lat = 100000\<rparr>)
       \<lparr>lon = 1500000, lat = 100000\<rparr> [] = Inr ?q'"
    by code_simp
  have c: "(1 :: nat) < unat (child_count (m_search_tree example_tree ! index TreeIndex_default))"
    by code_simp
  have d: "children (m_search_tree example_tree ! index TreeIndex_default) ! 1
           = \<lparr>index = 1, is_leaf = True\<rparr>"
    by code_simp
  have e: "is_leaf \<lparr>index = 1, is_leaf = True\<rparr>" by simp
  have f: "leaf_covers example_latToY (m_coordinate_list example_tree)
             (m_leaves example_tree ! index \<lparr>index = 1, is_leaf = True\<rparr>)"
    by code_simp
  have g: "list_all (foot_on_segment example_latToY example_nearest
                       (m_coordinate_list example_tree) \<lparr>lon = 1500000, lat = 100000\<rparr>)
             (leaf_edges (m_leaves example_tree ! index \<lparr>index = 1, is_leaf = True\<rparr>))"
    by code_simp
  have n: "unat (object_count (m_leaves example_tree ! index \<lparr>index = 1, is_leaf = True\<rparr>)) = 2"
    by code_simp
  note inst = leaf_lower_bound [OF a b c d e f g]
  from inst have "\<forall>i < unat (object_count
                      (m_leaves example_tree ! index \<lparr>index = 1, is_leaf = True\<rparr>)).
      squared_min_dist (?q1 ! (length ([] :: QueryCandidate list) + 1))
      \<le> squared_min_dist (?q' ! (length ([] :: QueryCandidate list) + i))"
    by blast
  then have le: "\<forall>i < 2. squared_min_dist (?q1 ! 1) \<le> squared_min_dist (?q' ! i)"
    unfolding n by simp
  from le [rule_format, of 0] le [rule_format, of 1]
  have "squared_min_dist (?q1 ! 1) \<le> squared_min_dist (?q' ! 0) \<and>
        squared_min_dist (?q1 ! 1) \<le> squared_min_dist (?q' ! 1)"
    by simp
  with a b show ?thesis
    by (simp add: QueryCandidate_node_def QueryCandidate_segment_def)
qed

section \<open>Terminator and filter\<close>

lemma Nearest_loop_segment_step:
  assumes "traversal_queue s \<noteq> []" and "is_segment (top (traversal_queue s))"
    and "segment_edge s (top (traversal_queue s)) = Inr e"
  shows "Nearest_loop nearest pfixed input filterT terminate (Suc fuel) s =
     (let c = \<lparr>candidate_coordinate = fixed_projected_coordinate (top (traversal_queue s)),
                data = e\<rparr>
      in if terminate (length (results s)) c
         then Inr (s\<lparr>traversal_queue := pop (traversal_queue s)\<rparr>)
         else if \<not> fst (filterT c) \<and> \<not> snd (filterT c)
         then Nearest_loop nearest pfixed input filterT terminate fuel
                (s\<lparr>traversal_queue := pop (traversal_queue s)\<rparr>)
         else Nearest_loop nearest pfixed input filterT terminate fuel
                (s\<lparr>traversal_queue := pop (traversal_queue s),
                   results := results s @ [mask_edge e (filterT c)]\<rparr>))"
  using assms by (simp add: Let_def)

lemma mask_edge_simps [simp]:
  "u (mask_edge e m) = u e" "v (mask_edge e m) = v e"
  "segment_id (forward_segment_id (mask_edge e m)) = segment_id (forward_segment_id e)"
  "segment_id (reverse_segment_id (mask_edge e m)) = segment_id (reverse_segment_id e)"
  "enabled (forward_segment_id (mask_edge e m)) \<longleftrightarrow> enabled (forward_segment_id e) \<and> fst m"
  "enabled (reverse_segment_id (mask_edge e m)) \<longleftrightarrow> enabled (reverse_segment_id e) \<and> snd m"
  by (simp_all add: mask_edge_def)

text \<open>
  C6: when the next entry is a segment and the terminator returns true for it, the loop
  returns at once and the result vector is the one before the call; every edge in the
  returned list was admitted after the terminator returned false for its candidate at
  that position; and with \<open>max_results = 0\<close> the wrapper returns the empty list: it never
  returns anything else, and it does return on every well-formed tree given enough fuel.
\<close>

theorem terminator_checked_before_admission:
  fixes s :: Nearest_state and t :: StaticRTree
  shows
  "(traversal_queue s \<noteq> [] \<and> is_segment (top (traversal_queue s)) \<and>
    segment_edge s (top (traversal_queue s)) = Inr e \<and>
    terminate (length (results s))
      \<lparr>candidate_coordinate = fixed_projected_coordinate (top (traversal_queue s)), data = e\<rparr> \<longrightarrow>
    Nearest_loop nearest pfixed input_coordinate filterT terminate (Suc fuel) s
      = Inr (s\<lparr>traversal_queue := pop (traversal_queue s)\<rparr>)) \<and>
   (Nearest latToY nearest fuel t input_coordinate filterT terminate = Inr rs \<longrightarrow>
      (\<forall>k<length rs. \<exists>c. data c \<in> set (stored_edges t) \<and> \<not> terminate k c \<and>
           rs ! k = mask_edge (data c) (filterT c))) \<and>
   (Nearest_max latToY nearest fuel t input_coordinate 0 = Inr rs' \<longrightarrow> rs' = []) \<and>
   (wf_at t h TreeIndex_default \<and> tree_weight t h TreeIndex_default \<le> fuel \<longrightarrow>
      Nearest_max latToY nearest fuel t input_coordinate 0 = Inr [])"
proof (intro conjI impI)
  assume "traversal_queue s \<noteq> [] \<and> is_segment (top (traversal_queue s)) \<and>
    segment_edge s (top (traversal_queue s)) = Inr e \<and>
    terminate (length (results s))
      \<lparr>candidate_coordinate = fixed_projected_coordinate (top (traversal_queue s)), data = e\<rparr>"
  then show "Nearest_loop nearest pfixed input_coordinate filterT terminate (Suc fuel) s
      = Inr (s\<lparr>traversal_queue := pop (traversal_queue s)\<rparr>)"
    by (simp add: Nearest_loop_segment_step del: Nearest_loop.simps)
next
  assume "Nearest latToY nearest fuel t input_coordinate filterT terminate = Inr rs"
  from Nearest_admitted [OF this]
  show "\<forall>k<length rs. \<exists>c. data c \<in> set (stored_edges t) \<and> \<not> terminate k c \<and>
           rs ! k = mask_edge (data c) (filterT c)" by blast
next
  have none: "rs' = []"
    if "Nearest_max latToY nearest fuel t input_coordinate 0 = Inr rs'" for rs'
  proof -
    from that have "Nearest latToY nearest fuel t input_coordinate (\<lambda>_. (True, True))
       (\<lambda>num_results _. num_results \<ge> 0) = Inr rs'" by (simp add: Nearest_max_def)
    from Nearest_admitted [OF this] have "\<forall>k<length rs'. False" by simp
    then show ?thesis by (cases rs') auto
  qed
  {
    assume "Nearest_max latToY nearest fuel t input_coordinate 0 = Inr rs'"
    then show "rs' = []" by (rule none)
  next
    assume "wf_at t h TreeIndex_default \<and> tree_weight t h TreeIndex_default \<le> fuel"
    then obtain rs where
      "Nearest latToY nearest fuel t input_coordinate (\<lambda>_. (True, True))
         (\<lambda>num_results _. num_results \<ge> 0) = Inr rs"
      using Nearest_terminates by blast
    then have r: "Nearest_max latToY nearest fuel t input_coordinate 0 = Inr rs"
      by (simp add: Nearest_max_def)
    with none [OF r] show "Nearest_max latToY nearest fuel t input_coordinate 0 = Inr []"
      by simp
  }
qed

theorem terminator_checked_before_admission_witness:
  "traversal_queue example_state \<noteq> [] \<and> is_segment (top (traversal_queue example_state)) \<and>
   segment_edge example_state (top (traversal_queue example_state))
     = Inr (example_edge 0 2 2 True) \<and>
   (1::nat) \<le> length (results example_state) \<and>
   Nearest_loop example_nearest \<lparr>lon = 100000, lat = 200000\<rparr> \<lparr>lon = 100000, lat = 100000\<rparr>
       (\<lambda>_. (True, True)) (\<lambda>num_results _. num_results \<ge> 1) (Suc 20) example_state
     = Inr (example_state\<lparr>traversal_queue := pop (traversal_queue example_state)\<rparr>) \<and>
   Nearest example_latToY example_nearest 20 example_tree \<lparr>lon = 100000, lat = 100000\<rparr>
       (\<lambda>_. (True, True)) (\<lambda>num_results _. num_results \<ge> 1)
     = Inr [example_edge 0 2 2 True] \<and>
   (\<exists>c :: CandidateSegment. data c \<in> set (stored_edges example_tree) \<and>
       example_edge 0 2 2 True = mask_edge (data c) (True, True)) \<and>
   wf_at example_tree 2 TreeIndex_default \<and>
   tree_weight example_tree 2 TreeIndex_default \<le> 20 \<and>
   Nearest_max example_latToY example_nearest 20 example_tree \<lparr>lon = 100000, lat = 100000\<rparr> 0
     = Inr []"
proof -
  have a: "traversal_queue example_state \<noteq> []" by code_simp
  have b: "is_segment (top (traversal_queue example_state))" by code_simp
  have c: "segment_edge example_state (top (traversal_queue example_state))
     = Inr (example_edge 0 2 2 True)" by code_simp
  have d: "(1::nat) \<le> length (results example_state)" by code_simp
  have e: "Nearest example_latToY example_nearest 20 example_tree \<lparr>lon = 100000, lat = 100000\<rparr>
       (\<lambda>_. (True, True)) (\<lambda>num_results _. num_results \<ge> 1)
     = Inr [example_edge 0 2 2 True]" by code_simp
  have f: "wf_at example_tree 2 TreeIndex_default" by code_simp
  have g: "tree_weight example_tree 2 TreeIndex_default \<le> 20" by code_simp
  note inst = terminator_checked_before_admission
    [where s = example_state and e = "example_edge 0 2 2 True"
       and terminate = "\<lambda>num_results _. num_results \<ge> 1"
       and nearest = example_nearest and pfixed = "\<lparr>lon = 100000, lat = 200000\<rparr>"
       and input_coordinate = "\<lparr>lon = 100000, lat = 100000\<rparr>"
       and filterT = "\<lambda>_. (True, True)" and fuel = "20" and latToY = example_latToY
       and t = example_tree and rs = "[example_edge 0 2 2 True]" and h = "2"
       and rs' = "[]"]
  show ?thesis
    using inst a b c d e f g by simp
qed


text \<open>
  C7: for a segment candidate that the terminator lets pass, a filter verdict
  \<open>(false, false)\<close> drops the candidate and the loop goes on with the same results;
  any other verdict appends the stored edge with each \<open>enabled\<close> flag and-ed with the
  verdict's component. Hence every returned edge is a stored edge so masked by a verdict
  that was not \<open>(false, false)\<close>.
\<close>

theorem filter_masks_enabled_flags:
  fixes s :: Nearest_state and t :: StaticRTree
  shows
  "(traversal_queue s \<noteq> [] \<and> is_segment (top (traversal_queue s)) \<and>
    segment_edge s (top (traversal_queue s)) = Inr e \<and>
    cand = \<lparr>candidate_coordinate = fixed_projected_coordinate (top (traversal_queue s)),
            data = e\<rparr> \<and>
    \<not> terminate (length (results s)) cand \<longrightarrow>
    Nearest_loop nearest pfixed input_coordinate filterT terminate (Suc fuel) s =
      (if \<not> fst (filterT cand) \<and> \<not> snd (filterT cand)
       then Nearest_loop nearest pfixed input_coordinate filterT terminate fuel
              (s\<lparr>traversal_queue := pop (traversal_queue s)\<rparr>)
       else Nearest_loop nearest pfixed input_coordinate filterT terminate fuel
              (s\<lparr>traversal_queue := pop (traversal_queue s),
                 results := results s @
                   [e\<lparr>forward_segment_id := (forward_segment_id e)
                        \<lparr>enabled := enabled (forward_segment_id e) \<and> fst (filterT cand)\<rparr>,
                      reverse_segment_id := (reverse_segment_id e)
                        \<lparr>enabled := enabled (reverse_segment_id e) \<and> snd (filterT cand)\<rparr>\<rparr>]\<rparr>))) \<and>
   (Nearest latToY nearest fuel t input_coordinate filterT terminate = Inr rs \<longrightarrow>
      (\<forall>r\<in>set rs. \<exists>c. data c \<in> set (stored_edges t) \<and>
          (fst (filterT c) \<or> snd (filterT c)) \<and>
          r = (data c)
                \<lparr>forward_segment_id := (forward_segment_id (data c))
                   \<lparr>enabled := enabled (forward_segment_id (data c)) \<and> fst (filterT c)\<rparr>,
                 reverse_segment_id := (reverse_segment_id (data c))
                   \<lparr>enabled := enabled (reverse_segment_id (data c)) \<and> snd (filterT c)\<rparr>\<rparr>))"
proof (intro conjI impI)
  assume h: "traversal_queue s \<noteq> [] \<and> is_segment (top (traversal_queue s)) \<and>
    segment_edge s (top (traversal_queue s)) = Inr e \<and>
    cand = \<lparr>candidate_coordinate = fixed_projected_coordinate (top (traversal_queue s)),
            data = e\<rparr> \<and>
    \<not> terminate (length (results s)) cand"
  then have ne: "traversal_queue s \<noteq> []" and seg: "is_segment (top (traversal_queue s))"
    and e: "segment_edge s (top (traversal_queue s)) = Inr e" by blast+
  from h have cand: "\<lparr>candidate_coordinate = fixed_projected_coordinate (top (traversal_queue s)),
            data = e\<rparr> = cand" by blast
  from h have nt: "\<not> terminate (length (results s)) cand" by blast
  show "Nearest_loop nearest pfixed input_coordinate filterT terminate (Suc fuel) s =
      (if \<not> fst (filterT cand) \<and> \<not> snd (filterT cand)
       then Nearest_loop nearest pfixed input_coordinate filterT terminate fuel
              (s\<lparr>traversal_queue := pop (traversal_queue s)\<rparr>)
       else Nearest_loop nearest pfixed input_coordinate filterT terminate fuel
              (s\<lparr>traversal_queue := pop (traversal_queue s),
                 results := results s @
                   [e\<lparr>forward_segment_id := (forward_segment_id e)
                        \<lparr>enabled := enabled (forward_segment_id e) \<and> fst (filterT cand)\<rparr>,
                      reverse_segment_id := (reverse_segment_id e)
                        \<lparr>enabled := enabled (reverse_segment_id e) \<and> snd (filterT cand)\<rparr>\<rparr>]\<rparr>))"
    unfolding Nearest_loop_segment_step [OF ne seg e] Let_def cand
    using nt by (simp add: mask_edge_def)
next
  assume "Nearest latToY nearest fuel t input_coordinate filterT terminate = Inr rs"
  from Nearest_admitted [OF this]
  have "\<forall>k<length rs. \<exists>c. data c \<in> set (stored_edges t) \<and>
           (fst (filterT c) \<or> snd (filterT c)) \<and> rs ! k = mask_edge (data c) (filterT c)"
    by blast
  then show "\<forall>r\<in>set rs. \<exists>c. data c \<in> set (stored_edges t) \<and>
          (fst (filterT c) \<or> snd (filterT c)) \<and>
          r = (data c)
                \<lparr>forward_segment_id := (forward_segment_id (data c))
                   \<lparr>enabled := enabled (forward_segment_id (data c)) \<and> fst (filterT c)\<rparr>,
                 reverse_segment_id := (reverse_segment_id (data c))
                   \<lparr>enabled := enabled (reverse_segment_id (data c)) \<and> snd (filterT c)\<rparr>\<rparr>"
    unfolding mask_edge_def by (metis in_set_conv_nth)
qed

theorem filter_masks_enabled_flags_witness:
  "traversal_queue example_state \<noteq> [] \<and> is_segment (top (traversal_queue example_state)) \<and>
   segment_edge example_state (top (traversal_queue example_state))
     = Inr (example_edge 0 2 2 True) \<and>
   Nearest_loop example_nearest \<lparr>lon = 100000, lat = 200000\<rparr> \<lparr>lon = 100000, lat = 100000\<rparr>
       (\<lambda>_. (False, True)) (\<lambda>_ _. False) (Suc 20) example_state
     = Nearest_loop example_nearest \<lparr>lon = 100000, lat = 200000\<rparr> \<lparr>lon = 100000, lat = 100000\<rparr>
       (\<lambda>_. (False, True)) (\<lambda>_ _. False) 20
       (example_state\<lparr>traversal_queue := pop (traversal_queue example_state),
          results := results example_state @ [example_edge 0 2 2 False]\<rparr>) \<and>
   Nearest example_latToY example_nearest 20 example_tree \<lparr>lon = 100000, lat = 100000\<rparr>
       (\<lambda>_. (False, True)) (\<lambda>_ _. False)
     = Inr [example_edge 0 2 2 False, example_edge 0 1 0 False,
            example_edge 1 3 3 False, example_edge 2 3 1 False] \<and>
   (\<exists>c :: CandidateSegment. data c \<in> set (stored_edges example_tree) \<and>
      example_edge 0 1 0 False =
        (data c)
          \<lparr>forward_segment_id := (forward_segment_id (data c))
             \<lparr>enabled := enabled (forward_segment_id (data c)) \<and> False\<rparr>,
           reverse_segment_id := (reverse_segment_id (data c))
             \<lparr>enabled := enabled (reverse_segment_id (data c)) \<and> True\<rparr>\<rparr>)"
proof -
  have a: "traversal_queue example_state \<noteq> []" by code_simp
  have b: "is_segment (top (traversal_queue example_state))" by code_simp
  have c: "segment_edge example_state (top (traversal_queue example_state))
     = Inr (example_edge 0 2 2 True)" by code_simp
  have e: "Nearest example_latToY example_nearest 20 example_tree \<lparr>lon = 100000, lat = 100000\<rparr>
       (\<lambda>_. (False, True)) (\<lambda>_ _. False)
     = Inr [example_edge 0 2 2 False, example_edge 0 1 0 False,
            example_edge 1 3 3 False, example_edge 2 3 1 False]" by code_simp
  note inst = filter_masks_enabled_flags
    [where s = example_state and e = "example_edge 0 2 2 True"
       and terminate = "\<lambda>_ _. False" and filterT = "\<lambda>_. (False, True)"
       and cand = "\<lparr>candidate_coordinate =
                      fixed_projected_coordinate (top (traversal_queue example_state)),
                    data = example_edge 0 2 2 True\<rparr>"
       and nearest = example_nearest and pfixed = "\<lparr>lon = 100000, lat = 200000\<rparr>"
       and input_coordinate = "\<lparr>lon = 100000, lat = 100000\<rparr>"
       and fuel = "20" and latToY = example_latToY
       and t = example_tree
       and rs = "[example_edge 0 2 2 False, example_edge 0 1 0 False,
            example_edge 1 3 3 False, example_edge 2 3 1 False]"]
  have step: "Nearest_loop example_nearest \<lparr>lon = 100000, lat = 200000\<rparr>
       \<lparr>lon = 100000, lat = 100000\<rparr> (\<lambda>_. (False, True)) (\<lambda>_ _. False) (Suc 20) example_state
     = Nearest_loop example_nearest \<lparr>lon = 100000, lat = 200000\<rparr> \<lparr>lon = 100000, lat = 100000\<rparr>
       (\<lambda>_. (False, True)) (\<lambda>_ _. False) 20
       (example_state\<lparr>traversal_queue := pop (traversal_queue example_state),
          results := results example_state @ [example_edge 0 2 2 False]\<rparr>)"
    using inst [THEN conjunct1] a b c by (simp add: example_edge_def del: Nearest_loop.simps)
  have glob: "\<forall>r\<in>set [example_edge 0 2 2 False, example_edge 0 1 0 False,
            example_edge 1 3 3 False, example_edge 2 3 1 False].
      \<exists>c :: CandidateSegment. data c \<in> set (stored_edges example_tree) \<and>
        r = (data c)
              \<lparr>forward_segment_id := (forward_segment_id (data c))
                 \<lparr>enabled := enabled (forward_segment_id (data c)) \<and> False\<rparr>,
               reverse_segment_id := (reverse_segment_id (data c))
                 \<lparr>enabled := enabled (reverse_segment_id (data c)) \<and> True\<rparr>\<rparr>"
    using inst [THEN conjunct2, THEN mp, OF e] by simp
  from glob have one: "\<exists>c :: CandidateSegment. data c \<in> set (stored_edges example_tree) \<and>
      example_edge 0 1 0 False =
        (data c)
          \<lparr>forward_segment_id := (forward_segment_id (data c))
             \<lparr>enabled := enabled (forward_segment_id (data c)) \<and> False\<rparr>,
           reverse_segment_id := (reverse_segment_id (data c))
             \<lparr>enabled := enabled (reverse_segment_id (data c)) \<and> True\<rparr>\<rparr>"
    by (simp del: simp_thms)
  show ?thesis
    using a b c e step one by (intro conjI)
qed

section \<open>The queries leave the index as it is\<close>

lemma SearchInBox_loop_frame:
  assumes "SearchInBox_loop search_rectangle projected_rectangle fuel s = Inr s'"
  shows "m_search_tree s' = m_search_tree s \<and> m_coordinate_list s' = m_coordinate_list s \<and>
         m_leaves s' = m_leaves s"
  using assms
proof (induction fuel arbitrary: s)
  case 0
  then show ?case by (simp split: if_splits)
next
  case (Suc fuel)
  show ?case
  proof (cases "box_queue s")
    case Nil
    with Suc.prems show ?thesis by simp
  next
    case (Cons ti rest)
    show ?thesis
    proof (cases "is_leaf ti")
      case True
      with Suc.prems Cons obtain rs where
        "SearchInBox_loop search_rectangle projected_rectangle fuel
           (s\<lparr>box_queue := rest, box_results := rs\<rparr>) = Inr s'"
        by (auto split: sum.splits)
      from Suc.IH [OF this] show ?thesis by simp
    next
      case False
      with Suc.prems Cons obtain q where
        "SearchInBox_loop search_rectangle projected_rectangle fuel
           (s\<lparr>box_queue := q\<rparr>) = Inr s'"
        by (auto split: sum.splits)
      from Suc.IH [OF this] show ?thesis by simp
    qed
  qed
qed

text \<open>
  C10: a run of either query that returns leaves the node array, the leaf pages and the
  coordinate table as they were; the flags that \<open>Nearest\<close> masks are those of the copy it
  appends to the results.
\<close>

theorem queries_leave_index_unchanged:
  "(Nearest_loop nearest pfixed input_coordinate filterT terminate fuel s = Inr s' \<longrightarrow>
      m_search_tree s' = m_search_tree s \<and> m_coordinate_list s' = m_coordinate_list s \<and>
      m_leaves s' = m_leaves s) \<and>
   (SearchInBox_loop search_rectangle projected_rectangle fuel b = Inr b' \<longrightarrow>
      m_search_tree b' = m_search_tree b \<and> m_coordinate_list b' = m_coordinate_list b \<and>
      m_leaves b' = m_leaves b)"
  using Nearest_loop_frame SearchInBox_loop_frame by blast


theorem queries_leave_index_unchanged_witness:
  "(\<exists>s'. Nearest_loop example_nearest (fromWGS84 example_latToY \<lparr>lon = 100000, lat = 100000\<rparr>)
           \<lparr>lon = 100000, lat = 100000\<rparr> (\<lambda>_. (False, True)) (\<lambda>_ _. False) 20
           (Nearest_init example_tree) = Inr s' \<and>
         results s' = [example_edge 0 2 2 False, example_edge 0 1 0 False,
                       example_edge 1 3 3 False, example_edge 2 3 1 False] \<and>
         m_search_tree s' = example_nodes \<and> m_coordinate_list s' = example_coordinates \<and>
         m_leaves s' = example_leaves) \<and>
   (\<exists>b'. SearchInBox_loop
           \<lparr>min_lon = - 100000, max_lon = 600000, min_lat = - 100000, max_lat = 600000\<rparr>
           (project_rectangle example_latToY
              \<lparr>min_lon = - 100000, max_lon = 600000, min_lat = - 100000, max_lat = 600000\<rparr>)
           20 (SearchInBox_init example_tree) = Inr b' \<and>
         box_results b' = [example_edge 0 1 0 True, example_edge 0 2 2 True] \<and>
         m_search_tree b' = example_nodes \<and> m_coordinate_list b' = example_coordinates \<and>
         m_leaves b' = example_leaves)"
proof -
  let ?R = "\<lparr>min_lon = - 100000, max_lon = 600000, min_lat = - 100000, max_lat = 600000\<rparr>"
  have n: "Nearest example_latToY example_nearest 20 example_tree \<lparr>lon = 100000, lat = 100000\<rparr>
       (\<lambda>_. (False, True)) (\<lambda>_ _. False)
     = Inr [example_edge 0 2 2 False, example_edge 0 1 0 False,
            example_edge 1 3 3 False, example_edge 2 3 1 False]" by code_simp
  have b: "SearchInBox example_latToY 20 example_tree ?R
     = Inr [example_edge 0 1 0 True, example_edge 0 2 2 True]" by code_simp
  from n obtain s' where
    s': "Nearest_loop example_nearest (fromWGS84 example_latToY \<lparr>lon = 100000, lat = 100000\<rparr>)
           \<lparr>lon = 100000, lat = 100000\<rparr> (\<lambda>_. (False, True)) (\<lambda>_ _. False) 20
           (Nearest_init example_tree) = Inr s'"
    and rs: "results s' = [example_edge 0 2 2 False, example_edge 0 1 0 False,
                       example_edge 1 3 3 False, example_edge 2 3 1 False]"
    by (cases "Nearest_loop example_nearest
           (fromWGS84 example_latToY \<lparr>lon = 100000, lat = 100000\<rparr>)
           \<lparr>lon = 100000, lat = 100000\<rparr> (\<lambda>_. (False, True)) (\<lambda>_ _. False) 20
           (Nearest_init example_tree)") (auto simp: Nearest_def)
  from b obtain b' where
    b': "SearchInBox_loop ?R (project_rectangle example_latToY ?R) 20
           (SearchInBox_init example_tree) = Inr b'"
    and br: "box_results b' = [example_edge 0 1 0 True, example_edge 0 2 2 True]"
    by (cases "SearchInBox_loop ?R (project_rectangle example_latToY ?R) 20
           (SearchInBox_init example_tree)") (auto simp: SearchInBox_def)
  from queries_leave_index_unchanged [THEN conjunct1, THEN mp, OF s']
  have 1: "m_search_tree s' = example_nodes \<and> m_coordinate_list s' = example_coordinates \<and>
         m_leaves s' = example_leaves"
    by (simp add: example_tree_def)
  from queries_leave_index_unchanged [THEN conjunct2, THEN mp, OF b']
  have 2: "m_search_tree b' = example_nodes \<and> m_coordinate_list b' = example_coordinates \<and>
         m_leaves b' = example_leaves"
    by (simp add: example_tree_def SearchInBox_init_def)
  from s' rs 1 b' br 2 show ?thesis by blast
qed

section \<open>Window search\<close>

lemma SearchInBox_leaf_Inr:
  assumes "\<forall>i\<in>set is. edge_in_range coords leaf i"
  shows "SearchInBox_leaf coords leaf R is rs =
           Inr (rs @ filter (\<lambda>e. Intersects (edge_bbox coords e) R) (map ((!) (objects leaf)) is))"
  using assms
  by (induction "is" arbitrary: rs) (simp_all add: edge_in_range_def at_def)

lemma map_nth_upt_take: "n \<le> length xs \<Longrightarrow> map ((!) xs) [0 ..< n] = take n xs"
  by (simp add: list_eq_iff_nth_eq)

lemma SearchInBox_leaf_ok:
  assumes "leaf_ok coords leaf"
  shows "SearchInBox_leaf coords leaf R [0 ..< unat (object_count leaf)] rs
           = Inr (rs @ hits coords R leaf)"
proof -
  have "\<forall>i\<in>set [0 ..< unat (object_count leaf)]. edge_in_range coords leaf i"
    using assms by (simp add: leaf_ok_edge_in_range)
  moreover have "map ((!) (objects leaf)) [0 ..< unat (object_count leaf)] = leaf_edges leaf"
    using assms by (simp add: leaf_ok_def leaf_edges_def map_nth_upt_take)
  ultimately show ?thesis by (simp add: SearchInBox_leaf_Inr hits_def)
qed

lemma SearchInBox_node_Inr:
  assumes "\<forall>i\<in>set is. child_in_range t node i"
  shows "SearchInBox_node t node PR is q =
           Inr (q @ filter (\<lambda>c. Intersects (rectangle_of t c) PR) (map ((!) (children node)) is))"
  using assms
proof (induction "is" arbitrary: q)
  case Nil
  show ?case by simp
next
  case (Cons i "is")
  then have "child_rectangle t (children node ! i) = Inr (rectangle_of t (children node ! i))"
    and "i < length (children node)"
    by (simp_all add: child_in_range_def child_rectangle_Inr)
  with Cons show ?case by (simp add: at_def)
qed

lemma wf_at_node:
  assumes "\<not> is_leaf ti" and "wf_at t h ti"
  obtains h' where "h = Suc h'" and "index ti < length (m_search_tree t)"
    and "unat (child_count (m_search_tree t ! index ti))
           \<le> length (children (m_search_tree t ! index ti))"
    and "\<forall>c\<in>set (node_children t ti). wf_at t h' c"
  using assms by (cases h) (auto simp: node_children_def list_all_iff)

lemma SearchInBox_node_wf:
  assumes "\<not> is_leaf ti" and "wf_at t h ti"
  shows "SearchInBox_node t (m_search_tree t ! index ti) PR
           [0 ..< unat (child_count (m_search_tree t ! index ti))] q
         = Inr (q @ filter (\<lambda>c. Intersects (rectangle_of t c) PR) (node_children t ti))"
proof -
  let ?n = "m_search_tree t ! index ti"
  obtain h' where len: "unat (child_count ?n) \<le> length (children ?n)"
    and ch: "\<forall>c\<in>set (node_children t ti). wf_at t h' c"
    by (rule wf_at_node [OF assms]) blast
  have "child_in_range t ?n i" if "i < unat (child_count ?n)" for i
  proof -
    from that len have "children ?n ! i \<in> set (node_children t ti)"
      by (auto simp: node_children_def in_set_conv_nth intro!: exI [of _ i])
    with ch have "wf_at t h' (children ?n ! i)" by blast
    then show ?thesis using that len by (simp add: child_in_range_def wf_at_in_range)
  qed
  then have "\<forall>i\<in>set [0 ..< unat (child_count ?n)]. child_in_range t ?n i" by simp
  moreover have "map ((!) (children ?n)) [0 ..< unat (child_count ?n)] = node_children t ti"
    using len by (simp add: node_children_def map_nth_upt_take)
  ultimately show ?thesis by (simp add: SearchInBox_node_Inr)
qed

lemma box_found_Suc: "wf_at t h ti \<Longrightarrow> box_found t R PR (Suc h) ti = box_found t R PR h ti"
proof (induction h arbitrary: ti)
  case 0
  then show ?case by simp
next
  case (Suc h)
  show ?case
  proof (cases "is_leaf ti")
    case True
    then show ?thesis by simp
  next
    case False
    obtain h' where "Suc h = Suc h'"
      and "\<forall>c\<in>set (node_children t ti). wf_at t h' c"
      by (rule wf_at_node [OF False Suc.prems]) blast
    then have "\<forall>c\<in>set (node_children t ti). wf_at t h c" by simp
    then have "map (box_found t R PR (Suc h))
                 (filter (\<lambda>c. Intersects (rectangle_of t c) PR) (node_children t ti))
             = map (box_found t R PR h)
                 (filter (\<lambda>c. Intersects (rectangle_of t c) PR) (node_children t ti))"
      using Suc.IH by (intro map_cong refl) auto
    with False show ?thesis by (simp only: box_found.simps if_False)
  qed
qed

lemma tree_weight_node:
  "\<not> is_leaf ti \<Longrightarrow>
   tree_weight t (Suc h) ti = 1 + sum_list (map (tree_weight t h) (node_children t ti))"
  by (simp add: node_children_def)


lemma box_found_cong:
  assumes "m_search_tree x = m_search_tree s" and "m_coordinate_list x = m_coordinate_list s"
    and "m_leaves x = m_leaves s"
  shows "box_found x R PR h ti = box_found s R PR h ti"
proof -
  have r: "rectangle_of x = rectangle_of s" "node_children x = node_children s"
    using assms by (auto simp: rectangle_of_def node_children_def fun_eq_iff)
  show ?thesis
    using assms by (induction h arbitrary: ti) (simp_all add: r cong: map_cong)
qed

lemma sum_list_filter_le:
  "sum_list (map f (filter P xs)) \<le> sum_list (map (f :: _ \<Rightarrow> nat) xs)"
  by (induction xs) auto

lemma box_found_leaf:
  "is_leaf ti \<Longrightarrow> box_found t R PR h ti = hits (m_coordinate_list t) R (m_leaves t ! index ti)"
  by (cases h) simp_all

lemma SearchInBox_loop_correct:
  assumes "\<forall>ti\<in>set (box_queue s). wf_at s h ti"
    and "sum_list (map (tree_weight s h) (box_queue s)) \<le> fuel"
  shows "\<exists>s'. SearchInBox_loop R PR fuel s = Inr s' \<and>
           mset (box_results s') =
             mset (box_results s) + mset (concat (map (box_found s R PR h) (box_queue s)))"
  using assms
proof (induction fuel arbitrary: s)
  case 0
  have "box_queue s = []"
  proof (cases "box_queue s")
    case (Cons ti rest)
    with 0 tree_weight_pos [of s h ti] show ?thesis by simp
  qed simp
  then show ?case by simp
next
  case (Suc fuel)
  show ?case
  proof (cases "box_queue s")
    case Nil
    then show ?thesis by simp
  next
    case (Cons ti rest)
    with Suc.prems have wf: "wf_at s h ti" and wfr: "\<forall>c\<in>set rest. wf_at s h c"
      and w: "tree_weight s h ti + sum_list (map (tree_weight s h) rest) \<le> Suc fuel"
      by simp_all
    show ?thesis
    proof (cases "is_leaf ti")
      case True
      let ?l = "m_leaves s ! index ti"
      let ?s1 = "s\<lparr>box_queue := rest,
                    box_results := box_results s @ hits (m_coordinate_list s) R ?l\<rparr>"
      from True wf have rng: "index ti < length (m_leaves s)"
        and ok: "leaf_ok (m_coordinate_list s) ?l" by (simp_all add: wf_at_leaf)
      have fr: "m_search_tree ?s1 = m_search_tree s" "m_coordinate_list ?s1 = m_coordinate_list s"
        "m_leaves ?s1 = m_leaves s" by simp_all
      have "\<exists>s'. SearchInBox_loop R PR fuel ?s1 = Inr s' \<and>
           mset (box_results s') =
             mset (box_results ?s1) + mset (concat (map (box_found ?s1 R PR h) (box_queue ?s1)))"
      proof (rule Suc.IH)
        show "\<forall>ti\<in>set (box_queue ?s1). wf_at ?s1 h ti"
          using wfr by (simp add: wf_at_cong [OF fr])
        show "sum_list (map (tree_weight ?s1 h) (box_queue ?s1)) \<le> fuel"
          using w tree_weight_pos [of s h ti]
          by (simp add: tree_weight_cong [OF fr(1) fr(3)] cong: map_cong)
      qed
      then obtain s' where run: "SearchInBox_loop R PR fuel ?s1 = Inr s'"
        and res: "mset (box_results s') =
             mset (box_results ?s1) + mset (concat (map (box_found ?s1 R PR h) (box_queue ?s1)))"
        by blast
      have "SearchInBox_loop R PR (Suc fuel) s = Inr s'"
        using Cons True rng run by (simp add: at_def SearchInBox_leaf_ok [OF ok])
      moreover have "mset (box_results s') =
             mset (box_results s) + mset (concat (map (box_found s R PR h) (box_queue s)))"
        using res Cons True
        by (simp add: box_found_cong [OF fr] box_found_leaf cong: map_cong)
      ultimately show ?thesis by blast
    next
      case False
      let ?n = "m_search_tree s ! index ti"
      let ?fs = "filter (\<lambda>c. Intersects (rectangle_of s c) PR) (node_children s ti)"
      let ?s1 = "s\<lparr>box_queue := rest @ ?fs\<rparr>"
      obtain h' where h: "h = Suc h'" and rng: "index ti < length (m_search_tree s)"
        and ch: "\<forall>c\<in>set (node_children s ti). wf_at s h' c"
        by (rule wf_at_node [OF False wf]) blast
      have fr: "m_search_tree ?s1 = m_search_tree s" "m_coordinate_list ?s1 = m_coordinate_list s"
        "m_leaves ?s1 = m_leaves s" by simp_all
      have weq: "map (tree_weight s h) (node_children s ti)
                   = map (tree_weight s h') (node_children s ti)"
        using ch by (intro map_cong refl) (simp add: h tree_weight_Suc del: tree_weight.simps)
      have "sum_list (map (tree_weight s h) ?fs)
              \<le> sum_list (map (tree_weight s h) (node_children s ti))"
        by (rule sum_list_filter_le)
      also have "\<dots> + 1 = tree_weight s h ti"
        unfolding weq using False by (simp add: h tree_weight_node del: tree_weight.simps)
      finally have wfs: "sum_list (map (tree_weight s h) ?fs) + 1 \<le> tree_weight s h ti"
        by simp
      have "\<exists>s'. SearchInBox_loop R PR fuel ?s1 = Inr s' \<and>
           mset (box_results s') =
             mset (box_results ?s1) + mset (concat (map (box_found ?s1 R PR h) (box_queue ?s1)))"
      proof (rule Suc.IH)
        have "\<forall>c\<in>set ?fs. wf_at s h c"
          using ch unfolding h by (auto intro: wf_at_Suc simp del: wf_at.simps)
        then show "\<forall>ti\<in>set (box_queue ?s1). wf_at ?s1 h ti"
          using wfr by (auto simp: wf_at_cong [OF fr])
        show "sum_list (map (tree_weight ?s1 h) (box_queue ?s1)) \<le> fuel"
          using w wfs by (simp add: tree_weight_cong [OF fr(1) fr(3)] cong: map_cong)
      qed
      then obtain s' where run: "SearchInBox_loop R PR fuel ?s1 = Inr s'"
        and res: "mset (box_results s') =
             mset (box_results ?s1) + mset (concat (map (box_found ?s1 R PR h) (box_queue ?s1)))"
        by blast
      have "SearchInBox_loop R PR (Suc fuel) s = Inr s'"
        using Cons False rng run by (simp add: at_def SearchInBox_node_wf [OF False wf])
      moreover have meq: "map (box_found s R PR h) ?fs = map (box_found s R PR h') ?fs"
        using ch by (intro map_cong refl) (simp add: h box_found_Suc del: box_found.simps)
      have "box_found s R PR h ti = concat (map (box_found s R PR h') ?fs)"
        using False by (simp add: h)
      then have "box_found s R PR h ti = concat (map (box_found s R PR h) ?fs)"
        by (simp only: meq)
      then have "mset (box_results s') =
             mset (box_results s) + mset (concat (map (box_found s R PR h) (box_queue s)))"
        using res Cons
        by (simp add: box_found_cong [OF fr] cong: map_cong del: box_found.simps)
      ultimately show ?thesis by blast
    qed
  qed
qed


lemma Intersects_leaf_cover:
  assumes mono: "mono latToY"
    and cu: "Contains r (fromWGS84 latToY (coords ! u e))"
    and cv: "Contains r (fromWGS84 latToY (coords ! v e))"
    and hit: "Intersects (edge_bbox coords e) R"
  shows "Intersects r (project_rectangle latToY R)"
proof -
  have m: "\<And>a b. a \<le> b \<Longrightarrow> latToY a \<le> latToY b" using mono by (rule monoD)
  from hit have
    1: "min_lon R \<le> lon (coords ! u e) \<or> min_lon R \<le> lon (coords ! v e)" and
    2: "lon (coords ! u e) \<le> max_lon R \<or> lon (coords ! v e) \<le> max_lon R" and
    3: "min_lat R \<le> lat (coords ! u e) \<or> min_lat R \<le> lat (coords ! v e)" and
    4: "lat (coords ! u e) \<le> max_lat R \<or> lat (coords ! v e) \<le> max_lat R"
    by (auto simp: Intersects_def edge_bbox_def)
  from 3 m have a3: "latToY (min_lat R) \<le> latToY (lat (coords ! u e)) \<or>
                     latToY (min_lat R) \<le> latToY (lat (coords ! v e))" by blast
  from 4 m have a4: "latToY (lat (coords ! u e)) \<le> latToY (max_lat R) \<or>
                     latToY (lat (coords ! v e)) \<le> latToY (max_lat R)" by blast
  from cu cv 1 2 a3 a4 show ?thesis
    by (auto simp: Intersects_def project_rectangle_def Contains_def fromWGS84_def)
qed

lemma Intersects_subset:
  "rect_subset a b \<Longrightarrow> Intersects a r \<Longrightarrow> Intersects b r"
  by (auto simp: rect_subset_def Intersects_def)

lemma covering_leaf:
  assumes "covering latToY t" and "index ti < length (m_leaves t)"
  shows "leaf_covers latToY (m_coordinate_list t) (m_leaves t ! index ti)"
  using assms by (simp add: covering_def list_all_length)

lemma covering_node:
  assumes "covering latToY t" and "index ti < length (m_search_tree t)"
    and "c \<in> set (node_children t ti)" and "index_in_range t c"
  shows "rect_subset (rectangle_of t c) (minimum_bounding_rectangle (m_search_tree t ! index ti))"
proof -
  from assms(1,2) have "node_covers t (m_search_tree t ! index ti)"
    by (simp add: covering_def list_all_length)
  with assms(3,4) show ?thesis
    by (simp add: node_covers_def list_all_iff node_children_def)
qed

lemma subtree_hit_meets_window:
  assumes mono: "mono latToY" and cov: "covering latToY t"
  shows "wf_at t h ti \<Longrightarrow> e \<in> set (subtree_edges t h ti) \<Longrightarrow>
         Intersects (edge_bbox (m_coordinate_list t) e) R \<Longrightarrow>
         Intersects (rectangle_of t ti) (project_rectangle latToY R)"
proof (induction h arbitrary: ti)
  case 0
  then have leaf: "is_leaf ti" and rng: "index ti < length (m_leaves t)"
    and e: "e \<in> set (leaf_edges (m_leaves t ! index ti))" by (simp_all split: if_splits)
  from covering_leaf [OF cov rng] e have
    "Contains (leaf_minimum_bounding_rectangle (m_leaves t ! index ti))
       (fromWGS84 latToY (m_coordinate_list t ! u e))"
    "Contains (leaf_minimum_bounding_rectangle (m_leaves t ! index ti))
       (fromWGS84 latToY (m_coordinate_list t ! v e))"
    by (auto simp: leaf_covers_def list_all_iff)
  from Intersects_leaf_cover [OF mono this "0.prems"(3)] leaf show ?case
    by (simp add: rectangle_of_def)
next
  case (Suc h)
  show ?case
  proof (cases "is_leaf ti")
    case True
    with Suc.prems have rng: "index ti < length (m_leaves t)"
      and e: "e \<in> set (leaf_edges (m_leaves t ! index ti))" by simp_all
    from covering_leaf [OF cov rng] e have
      "Contains (leaf_minimum_bounding_rectangle (m_leaves t ! index ti))
         (fromWGS84 latToY (m_coordinate_list t ! u e))"
      "Contains (leaf_minimum_bounding_rectangle (m_leaves t ! index ti))
         (fromWGS84 latToY (m_coordinate_list t ! v e))"
      by (auto simp: leaf_covers_def list_all_iff)
    from Intersects_leaf_cover [OF mono this Suc.prems(3)] True show ?thesis
      by (simp add: rectangle_of_def)
  next
    case False
    obtain h' where "Suc h = Suc h'" and rng: "index ti < length (m_search_tree t)"
      and ch: "\<forall>c\<in>set (node_children t ti). wf_at t h' c"
      by (rule wf_at_node [OF False Suc.prems(1)]) blast
    then have ch: "\<forall>c\<in>set (node_children t ti). wf_at t h c" by simp
    from False Suc.prems(2) obtain c where c: "c \<in> set (node_children t ti)"
      and ec: "e \<in> set (subtree_edges t h c)" by auto
    from ch c have wfc: "wf_at t h c" by blast
    have "Intersects (rectangle_of t c) (project_rectangle latToY R)"
      using wfc ec Suc.prems(3) by (rule Suc.IH)
    moreover have "rect_subset (rectangle_of t c)
        (minimum_bounding_rectangle (m_search_tree t ! index ti))"
      using cov rng c wf_at_in_range [OF wfc] by (rule covering_node)
    ultimately show ?thesis
      using False by (simp add: rectangle_of_def Intersects_subset)
  qed
qed

lemma concat_map_filter_empty:
  assumes "\<And>x. x \<in> set xs \<Longrightarrow> \<not> P x \<Longrightarrow> f x = []"
  shows "concat (map f (filter P xs)) = concat (map f xs)"
  using assms by (induction xs) auto

lemma box_found_eq_filter:
  assumes mono: "mono latToY" and cov: "covering latToY t"
  shows "wf_at t h ti \<Longrightarrow>
         box_found t R (project_rectangle latToY R) h ti
           = filter (\<lambda>e. Intersects (edge_bbox (m_coordinate_list t) e) R)
               (subtree_edges t h ti)"
proof (induction h arbitrary: ti)
  case 0
  then show ?case by (simp add: hits_def)
next
  case (Suc h)
  let ?Q = "\<lambda>e. Intersects (edge_bbox (m_coordinate_list t) e) R"
  let ?PR = "project_rectangle latToY R"
  show ?case
  proof (cases "is_leaf ti")
    case True
    then show ?thesis by (simp add: hits_def)
  next
    case False
    obtain h' where "Suc h = Suc h'"
      and ch: "\<forall>c\<in>set (node_children t ti). wf_at t h' c"
      by (rule wf_at_node [OF False Suc.prems]) blast
    then have ch: "\<forall>c\<in>set (node_children t ti). wf_at t h c" by simp
    have 1: "map (box_found t R ?PR h)
               (filter (\<lambda>c. Intersects (rectangle_of t c) ?PR) (node_children t ti))
           = map (\<lambda>c. filter ?Q (subtree_edges t h c))
               (filter (\<lambda>c. Intersects (rectangle_of t c) ?PR) (node_children t ti))"
      using ch Suc.IH by (intro map_cong refl) auto
    have 2: "concat (map (\<lambda>c. filter ?Q (subtree_edges t h c))
               (filter (\<lambda>c. Intersects (rectangle_of t c) ?PR) (node_children t ti)))
           = concat (map (\<lambda>c. filter ?Q (subtree_edges t h c)) (node_children t ti))"
    proof (rule concat_map_filter_empty)
      fix c assume c: "c \<in> set (node_children t ti)"
        and n: "\<not> Intersects (rectangle_of t c) ?PR"
      from ch c have wfc: "wf_at t h c" by blast
      show "filter ?Q (subtree_edges t h c) = []"
        using subtree_hit_meets_window [OF mono cov wfc] n by (auto simp: filter_empty_conv)
    qed
    have "box_found t R ?PR (Suc h) ti
            = concat (map (box_found t R ?PR h)
               (filter (\<lambda>c. Intersects (rectangle_of t c) ?PR) (node_children t ti)))"
      using False by simp
    also have "\<dots> = concat (map (\<lambda>c. filter ?Q (subtree_edges t h c)) (node_children t ti))"
      by (simp only: 1 2)
    also have "\<dots> = filter ?Q (subtree_edges t (Suc h) ti)"
      using False by (simp add: filter_concat comp_def)
    finally show ?thesis .
  qed
qed


lemma SearchInBox_loop_fuel_mono:
  "SearchInBox_loop R PR fuel s = Inr s' \<Longrightarrow> fuel \<le> fuel' \<Longrightarrow>
   SearchInBox_loop R PR fuel' s = Inr s'"
proof (induction fuel arbitrary: s fuel')
  case 0
  then have "box_queue s = []" and "s' = s" by (simp_all split: if_splits)
  then show ?case by (cases fuel') simp_all
next
  case (Suc fuel)
  from Suc.prems(2) obtain f where f: "fuel' = Suc f" and le: "fuel \<le> f"
    by (cases fuel') simp_all
  show ?case
  proof (cases "box_queue s")
    case Nil
    with Suc.prems(1) show ?thesis by (simp add: f)
  next
    case (Cons ti rest)
    show ?thesis
    proof (cases "is_leaf ti")
      case True
      with Suc.prems(1) Cons obtain l rs where
        l: "at (m_leaves s) (index ti) = Inr l"
        and rs: "SearchInBox_leaf (m_coordinate_list s) l R [0 ..< unat (object_count l)]
                   (box_results s) = Inr rs"
        and run: "SearchInBox_loop R PR fuel (s\<lparr>box_queue := rest, box_results := rs\<rparr>) = Inr s'"
        by (auto split: sum.splits)
      from Suc.IH [OF run le] Cons True l rs show ?thesis by (simp add: f)
    next
      case False
      with Suc.prems(1) Cons obtain n q where
        n: "at (m_search_tree s) (index ti) = Inr n"
        and q: "SearchInBox_node s n PR [0 ..< unat (child_count n)] rest = Inr q"
        and run: "SearchInBox_loop R PR fuel (s\<lparr>box_queue := q\<rparr>) = Inr s'"
        by (auto split: sum.splits)
      from Suc.IH [OF run le] Cons False n q show ?thesis by (simp add: f)
    qed
  qed
qed

lemma leaf_edges_stored:
  "i < length (m_leaves t) \<Longrightarrow> set (leaf_edges (m_leaves t ! i)) \<subseteq> set (stored_edges t)"
  by (auto simp: stored_edges_def intro!: bexI [of _ "m_leaves t ! i"])

lemma subtree_edges_stored:
  "wf_at t h ti \<Longrightarrow> set (subtree_edges t h ti) \<subseteq> set (stored_edges t)"
proof (induction h arbitrary: ti)
  case 0
  then show ?case using leaf_edges_stored [of "index ti" t] by auto
next
  case (Suc h)
  show ?case
  proof (cases "is_leaf ti")
    case True
    with Suc.prems show ?thesis using leaf_edges_stored [of "index ti" t] by auto
  next
    case False
    obtain h' where "Suc h = Suc h'"
      and ch: "\<forall>c\<in>set (node_children t ti). wf_at t h' c"
      by (rule wf_at_node [OF False Suc.prems]) blast
    then have "\<forall>c\<in>set (node_children t ti). wf_at t h c" by simp
    with Suc.IH False show ?thesis by auto
  qed
qed

lemma SearchInBox_init_simps [simp]:
  "m_search_tree (SearchInBox_init t) = m_search_tree t"
  "m_coordinate_list (SearchInBox_init t) = m_coordinate_list t"
  "m_leaves (SearchInBox_init t) = m_leaves t"
  "box_queue (SearchInBox_init t) = [TreeIndex_default]"
  "box_results (SearchInBox_init t) = []"
  by (simp_all add: SearchInBox_init_def)

lemma SearchInBox_found:
  assumes wf: "wf_at t h TreeIndex_default"
  shows "tree_weight t h TreeIndex_default \<le> fuel \<Longrightarrow>
           \<exists>rs. SearchInBox latToY fuel t R = Inr rs"
    and "SearchInBox latToY fuel t R = Inr rs \<Longrightarrow>
           mset rs = mset (box_found t R (project_rectangle latToY R) h TreeIndex_default)"
proof -
  let ?PR = "project_rectangle latToY R"
  let ?s = "SearchInBox_init t"
  have fr: "m_search_tree ?s = m_search_tree t" "m_coordinate_list ?s = m_coordinate_list t"
    "m_leaves ?s = m_leaves t" by simp_all
  have enough: "\<exists>s'. SearchInBox_loop R ?PR f ?s = Inr s' \<and>
       mset (box_results s') = mset (box_found t R ?PR h TreeIndex_default)"
    if "tree_weight t h TreeIndex_default \<le> f" for f
  proof -
    have "\<exists>s'. SearchInBox_loop R ?PR f ?s = Inr s' \<and>
           mset (box_results s') =
             mset (box_results ?s) + mset (concat (map (box_found ?s R ?PR h) (box_queue ?s)))"
      by (rule SearchInBox_loop_correct)
         (use wf that in \<open>simp_all add: wf_at_cong [OF fr] tree_weight_cong [OF fr(1) fr(3)]\<close>)
    then show ?thesis by (simp add: box_found_cong [OF fr])
  qed
  show "\<exists>rs. SearchInBox latToY fuel t R = Inr rs"
    if "tree_weight t h TreeIndex_default \<le> fuel"
    using enough [OF that] by (auto simp: SearchInBox_def)
  show "mset rs = mset (box_found t R ?PR h TreeIndex_default)"
    if run: "SearchInBox latToY fuel t R = Inr rs"
  proof -
    from run obtain s' where s': "SearchInBox_loop R ?PR fuel ?s = Inr s'"
      and rs: "box_results s' = rs"
      by (cases "SearchInBox_loop R ?PR fuel ?s") (auto simp: SearchInBox_def)
    let ?f = "max fuel (tree_weight t h TreeIndex_default)"
    from enough [of ?f] obtain s'' where s'': "SearchInBox_loop R ?PR ?f ?s = Inr s''"
      and res: "mset (box_results s'') = mset (box_found t R ?PR h TreeIndex_default)"
      by auto
    from SearchInBox_loop_fuel_mono [OF s', of ?f] s'' have "s'' = s'" by simp
    with res rs show ?thesis by simp
  qed
qed

text \<open>
  C3: on a well-formed tree whose rectangles cover what lies below them and whose leaves
  are all reached from the root, with a monotone latitude projection, the window search
  returns exactly the stored edges whose geographic bounding box meets the query
  rectangle; and it does return once the fuel covers the weight of the tree.
\<close>

theorem SearchInBox_exact:
  assumes "mono latToY" and "covering latToY t" and "wf_at t h TreeIndex_default"
    and "all_leaves_reached t h"
  shows "(SearchInBox latToY fuel t search_rectangle = Inr rs \<longrightarrow>
            set rs = {e \<in> set (stored_edges t).
                        Intersects (edge_bbox (m_coordinate_list t) e) search_rectangle}) \<and>
         (tree_weight t h TreeIndex_default \<le> fuel \<longrightarrow>
            (\<exists>rs'. SearchInBox latToY fuel t search_rectangle = Inr rs'))"
proof (intro conjI impI)
  assume "SearchInBox latToY fuel t search_rectangle = Inr rs"
  from SearchInBox_found(2) [OF assms(3) this]
  have "mset rs = mset (filter (\<lambda>e. Intersects (edge_bbox (m_coordinate_list t) e)
                                  search_rectangle)
                          (subtree_edges t h TreeIndex_default))"
    by (simp only: box_found_eq_filter [OF assms(1,2,3)])
  then have "set rs = set (filter (\<lambda>e. Intersects (edge_bbox (m_coordinate_list t) e)
                                  search_rectangle)
                          (subtree_edges t h TreeIndex_default))"
    by (rule mset_eq_setD)
  moreover have "set (subtree_edges t h TreeIndex_default) = set (stored_edges t)"
    using subtree_edges_stored [OF assms(3)] assms(4)
    by (auto simp: all_leaves_reached_def list_all_iff)
  ultimately show "set rs = {e \<in> set (stored_edges t).
                        Intersects (edge_bbox (m_coordinate_list t) e) search_rectangle}"
    by auto
next
  assume "tree_weight t h TreeIndex_default \<le> fuel"
  then show "\<exists>rs'. SearchInBox latToY fuel t search_rectangle = Inr rs'"
    by (rule SearchInBox_found(1) [OF assms(3)])
qed

theorem SearchInBox_exact_witness:
  "mono example_latToY \<and> covering example_latToY example_tree \<and>
   wf_at example_tree 2 TreeIndex_default \<and> all_leaves_reached example_tree 2 \<and>
   tree_weight example_tree 2 TreeIndex_default \<le> 20 \<and>
   SearchInBox example_latToY 20 example_tree
       \<lparr>min_lon = - 100000, max_lon = 600000, min_lat = - 100000, max_lat = 600000\<rparr>
     = Inr [example_edge 0 1 0 True, example_edge 0 2 2 True] \<and>
   set [example_edge 0 1 0 True, example_edge 0 2 2 True] =
     {e \<in> set (stored_edges example_tree).
        Intersects (edge_bbox (m_coordinate_list example_tree) e)
          \<lparr>min_lon = - 100000, max_lon = 600000, min_lat = - 100000, max_lat = 600000\<rparr>}"
proof -
  have a: "mono example_latToY" by (rule monoI) (simp add: example_latToY_def)
  have b: "covering example_latToY example_tree" by code_simp
  have c: "wf_at example_tree 2 TreeIndex_default" by code_simp
  have d: "all_leaves_reached example_tree 2" by code_simp
  have e: "tree_weight example_tree 2 TreeIndex_default \<le> 20" by code_simp
  have f: "SearchInBox example_latToY 20 example_tree
       \<lparr>min_lon = - 100000, max_lon = 600000, min_lat = - 100000, max_lat = 600000\<rparr>
     = Inr [example_edge 0 1 0 True, example_edge 0 2 2 True]" by code_simp
  from SearchInBox_exact [OF a b c d, THEN conjunct1, THEN mp, OF f] a b c d e f
  show ?thesis by (intro conjI)
qed

section \<open>Coverage of the input by the leaves\<close>

text \<open>
  C4 (every input edge is stored in exactly one leaf, and the object counts sum to the
  input size, for each of the three packing methods): \<open>PackWithOMT\<close> does not do this.
  It enqueues a group as the pair \<open>(j, min (j + N2 - 1) right2)\<close>, the next group starting
  at \<open>j + N2\<close>, and takes \<open>N = right - left + 1\<close> as the size of a group; but the leaf it
  writes for a group has \<open>object_count = N - 1\<close> and holds the copy of \<open>[left, right)\<close>, so
  the element at \<open>j + N2 - 1\<close> is in no leaf. On three edges with a branching factor of
  three the build returns an index of two leaves with one edge each: the object counts
  sum to two and the second edge is stored nowhere.
\<close>

theorem PackWithOMT_drops_edges:
  "map_sum id (\<lambda>t. (map (unat \<circ> object_count) (m_leaves t), stored_edges t))
     (PackWithOMT 3 (LEAF_NODE_SIZE 4096 28) example_latToY ceil_log omt_coordinates 10
        omt_edges)
   = Inr ([1, 1], [example_edge 0 1 0 True, example_edge 4 5 2 True])"
  by code_simp

end
